theory Spec2Isabelle
  imports Main "HOL-Library.Sublist" "HOL-Library.AList"
begin

section \<open>The file system\<close>

text \<open>
  Every operation of the program acts on the file system below the current directory.
  A path is the list of its components, relative to the current directory (the empty
  list is the current directory itself); a node is a regular file with its bytes or a
  directory.  The file system is an association list from paths to nodes, read through
  \<open>map_of\<close>.  Names are those of a POSIX file system: \<open>/\<close> is the only separator and
  names are compared byte by byte.  Symbolic links and other special files, paths
  outside the current directory, permissions and failures of the device are not
  modelled: an operation of \<open>std::filesystem\<close> fails only where the shape of the tree
  makes it fail.

  A call of the \<open>std::filesystem\<close> library that throws, an uncaught exception and
  \<open>exit(1)\<close> all end the process; the model returns \<open>Inl\<close> of an error then, and
  says nothing of the file system such a run leaves behind.
\<close>

type_synonym path = "string list"

datatype node = File string | Dir

type_synonym filesystem = "(path \<times> node) list"

datatype error = FilesystemError | RuntimeError | OutOfRange

definition bindE :: "error + 'a \<Rightarrow> ('a \<Rightarrow> error + 'b) \<Rightarrow> error + 'b" where
  "bindE m f = (case m of Inl e \<Rightarrow> Inl e | Inr x \<Rightarrow> f x)"

fun foldE :: "('a \<Rightarrow> 's \<Rightarrow> error + 's) \<Rightarrow> 'a list \<Rightarrow> 's \<Rightarrow> error + 's" where
  "foldE f [] s = Inr s"
| "foldE f (x # xs) s = (case f x s of Inl e \<Rightarrow> Inl e | Inr s' \<Rightarrow> foldE f xs s')"

definition lookup :: "filesystem \<Rightarrow> path \<Rightarrow> node option" where
  "lookup fs p = (if p = [] then Some Dir else map_of fs p)"

definition exists_path :: "filesystem \<Rightarrow> path \<Rightarrow> bool" where
  "exists_path fs p = (lookup fs p \<noteq> None)"

definition is_regular_file :: "filesystem \<Rightarrow> path \<Rightarrow> bool" where
  "is_regular_file fs p = (case lookup fs p of Some (File c) \<Rightarrow> True | _ \<Rightarrow> False)"

definition is_directory :: "filesystem \<Rightarrow> path \<Rightarrow> bool" where
  "is_directory fs p = (lookup fs p = Some Dir)"

text \<open>\<open>fs::file_size\<close>: what it does on a directory is implementation-defined; libstdc++
  and libc++ report an error, which \<open>filesAreSame\<close> does not catch.\<close>

definition file_size :: "filesystem \<Rightarrow> path \<Rightarrow> error + nat" where
  "file_size fs p = (case lookup fs p of Some (File c) \<Rightarrow> Inr (length c) | _ \<Rightarrow> Inl FilesystemError)"

definition parent_path :: "path \<Rightarrow> path" where
  "parent_path p = butlast p"

text \<open>\<open>fs::create_directories\<close>: every missing ancestor and the path itself become
  directories; an ancestor that is a regular file is an error.\<close>

fun mkdirs :: "path list \<Rightarrow> filesystem \<Rightarrow> error + filesystem" where
  "mkdirs [] fs = Inr fs"
| "mkdirs (q # qs) fs =
     (case lookup fs q of
        Some (File c) \<Rightarrow> Inl FilesystemError
      | Some Dir \<Rightarrow> mkdirs qs fs
      | None \<Rightarrow> mkdirs qs (AList.update q Dir fs))"

definition create_directories :: "filesystem \<Rightarrow> path \<Rightarrow> error + filesystem" where
  "create_directories fs p = mkdirs (tl (prefixes p)) fs"

text \<open>\<open>fs::create_directory\<close>: one level only, the parent must be a directory.\<close>

definition create_directory :: "filesystem \<Rightarrow> path \<Rightarrow> error + filesystem" where
  "create_directory fs p =
     (case lookup fs p of
        Some Dir \<Rightarrow> Inr fs
      | Some (File c) \<Rightarrow> Inl FilesystemError
      | None \<Rightarrow> if is_directory fs (parent_path p) then Inr (AList.update p Dir fs)
                else Inl FilesystemError)"

definition has_children :: "filesystem \<Rightarrow> path \<Rightarrow> bool" where
  "has_children fs p = list_ex (\<lambda>q. strict_prefix p q) (map fst fs)"

text \<open>\<open>fs::remove\<close>: a missing path is no error, a directory that is not empty is.\<close>

definition remove_path :: "filesystem \<Rightarrow> path \<Rightarrow> error + filesystem" where
  "remove_path fs p =
     (case lookup fs p of
        None \<Rightarrow> Inr fs
      | Some (File c) \<Rightarrow> Inr (AList.delete p fs)
      | Some Dir \<Rightarrow> if has_children fs p then Inl FilesystemError else Inr (AList.delete p fs))"

text \<open>\<open>fs::remove_all\<close>: the path and everything below it.\<close>

definition remove_all :: "filesystem \<Rightarrow> path \<Rightarrow> filesystem" where
  "remove_all fs p = filter (\<lambda>(q, n). \<not> prefix p q) fs"

text \<open>\<open>fs::copy_file\<close>; the flag says whether \<open>copy_options::overwrite_existing\<close> is given.
  The source must be a regular file, an existing target must be a regular file other than
  the source and is replaced only with the flag; a new target needs its directory.\<close>

definition copy_file :: "filesystem \<Rightarrow> path \<Rightarrow> path \<Rightarrow> bool \<Rightarrow> error + filesystem" where
  "copy_file fs src dst overwrite =
     (case lookup fs src of
        Some (File c) \<Rightarrow>
          (case lookup fs dst of
             None \<Rightarrow> if is_directory fs (parent_path dst) then Inr (AList.update dst (File c) fs)
                     else Inl FilesystemError
           | Some (File d) \<Rightarrow> if overwrite \<and> src \<noteq> dst then Inr (AList.update dst (File c) fs)
                              else Inl FilesystemError
           | Some Dir \<Rightarrow> Inl FilesystemError)
      | _ \<Rightarrow> Inl FilesystemError)"

text \<open>Opening an \<open>ofstream\<close> (truncating) and writing the text: the stream does not open
  when the path is a directory or its directory is missing.\<close>

definition write_file :: "filesystem \<Rightarrow> path \<Rightarrow> string \<Rightarrow> filesystem option" where
  "write_file fs p c =
     (if is_directory fs p \<or> \<not> is_directory fs (parent_path p) then None
      else Some (AList.update p (File c) fs))"

text \<open>\<open>std::getline\<close> on a stream over the bytes: the text up to the first line feed.
  \<open>getlines\<close> is the sequence of lines a \<open>while (getline(file, line))\<close> loop reads: a
  last line without line feed counts, an empty rest after the last line feed does not.\<close>

definition newline :: char where
  "newline = CHR 0x0A"

definition first_line :: "string \<Rightarrow> string" where
  "first_line c = takeWhile (\<lambda>x. x \<noteq> newline) c"

fun getlines_acc :: "string \<Rightarrow> string \<Rightarrow> string list" where
  "getlines_acc cur [] = (if cur = [] then [] else [rev cur])"
| "getlines_acc cur (x # xs) =
     (if x = newline then rev cur # getlines_acc [] xs else getlines_acc (x # cur) xs)"

definition getlines :: "string \<Rightarrow> string list" where
  "getlines c = getlines_acc [] c"

text \<open>The entries a \<open>recursive_directory_iterator\<close> over directory \<open>d\<close> yields, as paths
  relative to \<open>d\<close> (what \<open>fs::relative(e.path(), d)\<close> gives).  The iterator throws when
  \<open>d\<close> is not a directory.  The order is the one of the association list; the standard
  leaves it unspecified, as it does whether changes made during the iteration are seen.\<close>

definition entries_below :: "filesystem \<Rightarrow> path \<Rightarrow> path list" where
  "entries_below fs d =
     map (drop (length d)) (filter (\<lambda>p. strict_prefix d p) (remdups (map fst fs)))"

definition recursive_directory_iterator :: "filesystem \<Rightarrow> path \<Rightarrow> error + path list" where
  "recursive_directory_iterator fs d =
     (if is_directory fs d then Inr (entries_below fs d) else Inl FilesystemError)"

section \<open>manager.cpp: the file comparison\<close>

text \<open>\<open>std::equal(first1, last1, first2)\<close> walks the first range and compares it with the
  second element by element, stopping at the first difference; the second component
  counts the comparisons made.  \<open>filesAreSame\<close> calls it on streams of equal size only,
  so the second range never ends before the first; that case is given as a difference.\<close>

fun std_equal :: "string \<Rightarrow> string \<Rightarrow> bool \<times> nat" where
  "std_equal [] ys = (True, 0)"
| "std_equal (x # xs) [] = (False, 1)"
| "std_equal (x # xs) (y # ys) =
     (if x = y then (case std_equal xs ys of (r, n) \<Rightarrow> (r, Suc n)) else (False, 1))"

text \<open>\<open>filesAreSame\<close> with the number of bytes it compared.\<close>

definition filesAreSame_counted :: "filesystem \<Rightarrow> path \<Rightarrow> path \<Rightarrow> error + (bool \<times> nat)" where
  "filesAreSame_counted fs a b =
     (if \<not> exists_path fs a \<or> \<not> exists_path fs b then Inr (False, 0)
      else bindE (file_size fs a) (\<lambda>sa. bindE (file_size fs b) (\<lambda>sb.
        if sa \<noteq> sb then Inr (False, 0)
        else (case (lookup fs a, lookup fs b) of
                (Some (File ca), Some (File cb)) \<Rightarrow> Inr (std_equal ca cb)
              | _ \<Rightarrow> Inl FilesystemError))))"

definition filesAreSame :: "filesystem \<Rightarrow> path \<Rightarrow> path \<Rightarrow> error + bool" where
  "filesAreSame fs a b = map_sum id fst (filesAreSame_counted fs a b)"

section \<open>core.cpp\<close>

text \<open>The fixed places of the repository below the current directory.  A commit
  identifier is one path component: \<open>gen_random\<close> draws letters and digits.  The code
  appends the identifier to the path of the commits as a string, so that an identifier
  or a reference that is empty, is \<open>.\<close> or \<open>..\<close>, or has a separator in it names
  another place (\<open>./AAAAAAAA\<close> is the commit \<open>AAAAAAAA\<close>); the model does not follow
  such a string, and what is stated of a reference given by the user is stated of a
  \<open>plain_name\<close>.\<close>

definition staging_area :: path where
  "staging_area = [''.git'', ''staging_area'']"

definition commitsRoot :: path where
  "commitsRoot = [''.git'', ''commits'']"

definition HEAD_path :: path where
  "HEAD_path = [''.git'', ''HEAD'']"

definition commitPath :: "string \<Rightarrow> path" where
  "commitPath commitID = commitsRoot @ [commitID]"

definition dataPath :: "string \<Rightarrow> path" where
  "dataPath commitID = commitPath commitID @ [''Data'']"

definition commitInfoPath :: "string \<Rightarrow> path" where
  "commitInfoPath commitID = commitPath commitID @ [''commitInfo.txt'']"

definition trim_chars :: "char list" where
  "trim_chars = [CHR '' '', CHR 0x0A, CHR 0x0D, CHR 0x09]"

definition trim :: "string \<Rightarrow> string" where
  "trim s = rev (dropWhile (\<lambda>c. c \<in> set trim_chars) (rev (dropWhile (\<lambda>c. c \<in> set trim_chars) s)))"

text \<open>An \<open>ifstream\<close> over a path and one \<open>getline\<close> from it: the first line of a regular
  file, the empty string when nothing can be read.\<close>

definition read_first_line :: "filesystem \<Rightarrow> path \<Rightarrow> string" where
  "read_first_line fs p = (case lookup fs p of Some (File c) \<Rightarrow> first_line c | _ \<Rightarrow> [])"

definition read_lines :: "filesystem \<Rightarrow> path \<Rightarrow> string list" where
  "read_lines fs p = (case lookup fs p of Some (File c) \<Rightarrow> getlines c | _ \<Rightarrow> [])"

text \<open>\<open>line.substr(2)\<close> throws \<open>std::out_of_range\<close> on a line shorter than two characters.\<close>

definition substr2 :: "string \<Rightarrow> error + string" where
  "substr2 line = (if length line < 2 then Inl OutOfRange else Inr (drop 2 line))"

text \<open>The body of both loops of \<open>createCommit\<close>: one entry of the source tree is copied
  to the same relative path of the target tree.\<close>

definition copy_entry :: "path \<Rightarrow> path \<Rightarrow> path \<Rightarrow> filesystem \<Rightarrow> error + filesystem" where
  "copy_entry srcDir dstDir rel fs =
     (if is_regular_file fs (srcDir @ rel) then
        bindE (create_directories fs (parent_path (dstDir @ rel))) (\<lambda>fs1.
        bindE (if exists_path fs1 (dstDir @ rel) then remove_path fs1 (dstDir @ rel) else Inr fs1) (\<lambda>fs2.
        copy_file fs2 (srcDir @ rel) (dstDir @ rel) False))
      else Inr fs)"

definition copy_tree :: "filesystem \<Rightarrow> path \<Rightarrow> path \<Rightarrow> error + filesystem" where
  "copy_tree fs srcDir dstDir =
     bindE (recursive_directory_iterator fs srcDir) (\<lambda>es. foldE (copy_entry srcDir dstDir) es fs)"

definition commitInfo_text :: "string \<Rightarrow> string \<Rightarrow> string \<Rightarrow> string \<Rightarrow> string" where
  "commitInfo_text commitID parentCommitID commitMsg now =
     ''1.'' @ commitID @ [newline] @
     ''2.'' @ (if parentCommitID = [] then ''NULL'' else parentCommitID) @ [newline] @
     ''3.'' @ commitMsg @ [newline] @
     ''4.'' @ now @ [newline]"

text \<open>\<open>commitNode::createCommit\<close>; \<open>now\<close> is what \<open>get_time()\<close> returns.  Both catch
  blocks call \<open>exit(1)\<close>.\<close>

definition createCommit :: "filesystem \<Rightarrow> string \<Rightarrow> string \<Rightarrow> string \<Rightarrow> string \<Rightarrow> error + filesystem" where
  "createCommit fs commitID parentCommitID commitMsg now =
     bindE (create_directories fs (dataPath commitID)) (\<lambda>fs1.
     bindE (if parentCommitID \<noteq> [] \<and> exists_path fs1 (dataPath parentCommitID)
            then copy_tree fs1 (dataPath parentCommitID) (dataPath commitID) else Inr fs1) (\<lambda>fs2.
     bindE (if exists_path fs2 staging_area
            then copy_tree fs2 staging_area (dataPath commitID) else Inr fs2) (\<lambda>fs3.
     (case write_file fs3 (commitInfoPath commitID)
             (commitInfo_text commitID parentCommitID commitMsg now) of
        None \<Rightarrow> Inl RuntimeError
      | Some fs4 \<Rightarrow> Inr fs4))))"

text \<open>\<open>commitNodeList::addOnTail\<close>; \<open>newCommitID\<close> is what \<open>gen_random(8)\<close> returns.
  The write of HEAD is not checked: a stream that does not open writes nothing.\<close>

definition addOnTail :: "filesystem \<Rightarrow> string \<Rightarrow> string \<Rightarrow> string \<Rightarrow> error + filesystem" where
  "addOnTail fs msg newCommitID now =
     (let parentID = trim (read_first_line fs HEAD_path);
          parentID = (if parentID = ''NULL'' then [] else parentID)
      in bindE (createCommit fs newCommitID parentID msg now) (\<lambda>fs1.
           Inr (case write_file fs1 HEAD_path newCommitID of None \<Rightarrow> fs1 | Some fs2 \<Rightarrow> fs2)))"

fun revert_msg :: "string list \<Rightarrow> string \<Rightarrow> error + string" where
  "revert_msg [] msg = Inr msg"
| "revert_msg (line # ls) msg =
     (if line \<noteq> [] \<and> hd line = CHR ''3'' then bindE (substr2 line) (\<lambda>m. revert_msg ls m)
      else revert_msg ls msg)"

text \<open>The first part of \<open>revertCommit\<close>: the target hash, or nothing where the function
  returns false before it looks for the commit.  The stream over HEAD is open when
  the path exists.\<close>

definition revert_target :: "filesystem \<Rightarrow> string \<Rightarrow> string option" where
  "revert_target fs commitHash =
     (if commitHash = ''HEAD'' then
        (if \<not> exists_path fs HEAD_path then None
         else let targetHash = trim (read_first_line fs HEAD_path)
              in if targetHash = ''NULL'' \<or> targetHash = [] then None else Some targetHash)
      else Some commitHash)"

definition revertCommit :: "filesystem \<Rightarrow> string \<Rightarrow> string \<Rightarrow> string \<Rightarrow> error + (bool \<times> filesystem)" where
  "revertCommit fs commitHash newCommitID now =
     (case revert_target fs commitHash of
        None \<Rightarrow> Inr (False, fs)
      | Some targetHash \<Rightarrow>
          if \<not> exists_path fs (commitInfoPath targetHash) then Inr (False, fs)
          else bindE (revert_msg (read_lines fs (commitInfoPath targetHash)) []) (\<lambda>msg.
               bindE (addOnTail fs (msg @ '' (Revert of '' @ targetHash @ '')'') newCommitID now) (\<lambda>fs1.
               Inr (True, fs1))))"

text \<open>\<open>printCommitList\<close>: what is written to the standard output, line by line.  The
  inner loop reads one \<open>commitInfo.txt\<close> and yields the output with the parent read.\<close>

fun print_info :: "string list \<Rightarrow> string list \<Rightarrow> string \<Rightarrow> error + (string list \<times> string)" where
  "print_info [] out parentID = Inr (out, parentID)"
| "print_info (line # ls) out parentID =
     (if line = [] then print_info ls out parentID
      else if hd line = CHR ''1'' then
        bindE (substr2 line) (\<lambda>x. print_info ls (out @ [''Commit ID:    '' @ x]) parentID)
      else if hd line = CHR ''3'' then
        bindE (substr2 line) (\<lambda>x. print_info ls (out @ [''Commit Msg:   '' @ x]) parentID)
      else if hd line = CHR ''4'' then
        bindE (substr2 line) (\<lambda>x. print_info ls (out @ [''Date & Time:  '' @ x]) parentID)
      else if hd line = CHR ''2'' then
        bindE (substr2 line) (\<lambda>x. print_info ls out x)
      else print_info ls out parentID)"

text \<open>One round of the outer loop for a commit whose record exists: the output so far
  with the entry of the commit, and the identifier the next round starts from.\<close>

definition print_step :: "filesystem \<Rightarrow> string \<Rightarrow> string list \<Rightarrow> error + (string \<times> string list)" where
  "print_step fs currID out =
     (case print_info (read_lines fs (commitInfoPath currID)) out [] of
        Inl e \<Rightarrow> Inl e
      | Inr (out1, parentID) \<Rightarrow> Inr (trim parentID, out1 @ [''============================'', []]))"

text \<open>The outer loop may run forever (a commit that is its own ancestor), so it is a
  partial function: \<open>None\<close> is the run that does not return.\<close>

partial_function (option) print_loop :: "filesystem \<Rightarrow> string \<Rightarrow> string list \<Rightarrow> (error + string list) option" where
  "print_loop fs currID out =
     (if currID \<noteq> [] \<and> currID \<noteq> ''NULL'' then
        (if \<not> exists_path fs (commitInfoPath currID) then Some (Inr out)
         else (case print_step fs currID out of
                 Inl e \<Rightarrow> Some (Inl e)
               | Inr (nextID, out1) \<Rightarrow> print_loop fs nextID out1))
      else Some (Inr out))"

declare print_loop.simps [code]

definition printCommitList :: "filesystem \<Rightarrow> (error + string list) option" where
  "printCommitList fs = print_loop fs (trim (read_first_line fs HEAD_path)) []"

section \<open>manager.cpp\<close>

text \<open>A relative path as the string \<open>rel.string()\<close>; \<open>fs::relative\<close> of a directory to
  itself is the path \<open>.\<close>.\<close>

fun join_path :: "path \<Rightarrow> string" where
  "join_path [] = []"
| "join_path [c] = c"
| "join_path (c # cs) = c @ ''/'' @ join_path cs"

definition path_string :: "path \<Rightarrow> string" where
  "path_string rel = (if rel = [] then ''.'' else join_path rel)"

definition filename :: "path \<Rightarrow> string" where
  "filename rel = (if rel = [] then ''.'' else last rel)"

definition isIgnored :: "path \<Rightarrow> bool" where
  "isIgnored rel =
     (let s = path_string rel in
      if s = [] then True
      else if prefix ''.git'' s then True
      else if prefix ''.vscode'' s then True
      else if filename rel = ''mygit.exe'' \<or> filename rel = ''mygit'' then True
      else False)"

definition isspace :: "char \<Rightarrow> bool" where
  "isspace c = (c \<in> set [CHR '' '', CHR 0x09, CHR 0x0A, CHR 0x0B, CHR 0x0C, CHR 0x0D])"

definition getHEAD :: "filesystem \<Rightarrow> string" where
  "getHEAD fs =
     (case lookup fs HEAD_path of
        Some (File c) \<Rightarrow>
          if c = [] then ''NULL''
          else (let head = filter (\<lambda>x. \<not> isspace x) (first_line c)
                in if head = [] then ''NULL'' else head)
      | _ \<Rightarrow> ''NULL'')"

text \<open>\<open>committedData\<close>: the snapshot directory of the head, or the empty path (here
  \<open>None\<close>), which never exists.\<close>

definition committedData :: "filesystem \<Rightarrow> path option" where
  "committedData fs = (let head = getHEAD fs in if head \<noteq> ''NULL'' then Some (dataPath head) else None)"

definition exists_below :: "filesystem \<Rightarrow> path option \<Rightarrow> path \<Rightarrow> bool" where
  "exists_below fs d rel = (case d of None \<Rightarrow> False | Some p \<Rightarrow> exists_path fs (p @ rel))"

text \<open>The walk over the current directory in \<open>gitAdd\<close> and \<open>gitStatus\<close>: the iterator
  does not descend into an entry for which \<open>disable_recursion_pending\<close> was called, so an
  entry with an ignored ancestor is never reached.\<close>

definition pruned :: "path \<Rightarrow> bool" where
  "pruned rel = list_ex isIgnored (butlast (tl (prefixes rel)))"

definition walk_root :: "filesystem \<Rightarrow> path list" where
  "walk_root fs = filter (\<lambda>rel. \<not> pruned rel) (entries_below fs [])"

definition gitInit :: "filesystem \<Rightarrow> filesystem" where
  "gitInit fs =
     (case create_directories fs staging_area of
        Inl e \<Rightarrow> fs
      | Inr fs1 \<Rightarrow>
          (case create_directories fs1 commitsRoot of
             Inl e \<Rightarrow> fs1
           | Inr fs2 \<Rightarrow> (case write_file fs2 HEAD_path ''NULL'' of None \<Rightarrow> fs2 | Some fs3 \<Rightarrow> fs3)))"

text \<open>The test \<open>fs::exists(committedFile) && filesAreSame(src, committedFile)\<close>.\<close>

definition same_as_committed :: "filesystem \<Rightarrow> path option \<Rightarrow> path \<Rightarrow> error + bool" where
  "same_as_committed fs d rel =
     (case d of
        None \<Rightarrow> Inr False
      | Some p \<Rightarrow> if exists_path fs (p @ rel) then filesAreSame fs rel (p @ rel) else Inr False)"

text \<open>The body of the loop of \<open>gitAdd()\<close>.\<close>

definition add_entry :: "path option \<Rightarrow> path \<Rightarrow> filesystem \<Rightarrow> error + filesystem" where
  "add_entry d rel fs =
     (if isIgnored rel then Inr fs
      else if \<not> is_regular_file fs rel then Inr fs
      else bindE (same_as_committed fs d rel) (\<lambda>same.
        if same then
          (if exists_path fs (staging_area @ rel) then remove_path fs (staging_area @ rel) else Inr fs)
        else bindE (create_directories fs (parent_path (staging_area @ rel))) (\<lambda>fs1.
               copy_file fs1 rel (staging_area @ rel) True)))"

definition gitAdd :: "filesystem \<Rightarrow> error + filesystem" where
  "gitAdd fs = foldE (add_entry (committedData fs)) (walk_root fs) fs"

text \<open>\<open>gitAdd(files, n)\<close>: each argument is given as the relative path
  \<open>fs::relative(root / files[i], root)\<close>, a path below the current directory; the first
  component of the state collects the arguments a warning was printed for.\<close>

definition add_named_entry :: "path option \<Rightarrow> path \<Rightarrow> path list \<times> filesystem \<Rightarrow> error + (path list \<times> filesystem)" where
  "add_named_entry d rel st =
     (case st of (warnings, fs) \<Rightarrow>
        if isIgnored rel then Inr (warnings, fs)
        else if \<not> exists_path fs rel \<or> \<not> is_regular_file fs rel then Inr (warnings @ [rel], fs)
        else bindE (same_as_committed fs d rel) (\<lambda>same.
          if same then Inr (warnings, fs)
          else bindE (create_directories fs (parent_path (staging_area @ rel))) (\<lambda>fs1.
               bindE (copy_file fs1 rel (staging_area @ rel) True) (\<lambda>fs2.
               Inr (warnings, fs2)))))"

definition gitAdd_named :: "filesystem \<Rightarrow> path list \<Rightarrow> error + (path list \<times> filesystem)" where
  "gitAdd_named fs files = foldE (add_named_entry (committedData fs)) files ([], fs)"

definition clearStagingArea :: "filesystem \<Rightarrow> error + filesystem" where
  "clearStagingArea fs =
     (if exists_path fs staging_area then create_directory (remove_all fs staging_area) staging_area
      else Inr fs)"

text \<open>The scan of \<open>gitCommit\<close>: is there a regular file in the staging area?\<close>

definition staging_nonempty :: "filesystem \<Rightarrow> error + bool" where
  "staging_nonempty fs =
     (if exists_path fs staging_area then
        bindE (recursive_directory_iterator fs staging_area) (\<lambda>es.
          Inr (list_ex (\<lambda>rel. is_regular_file fs (staging_area @ rel)) es))
      else Inr False)"

definition gitCommit :: "filesystem \<Rightarrow> string \<Rightarrow> string \<Rightarrow> string \<Rightarrow> error + (bool \<times> filesystem)" where
  "gitCommit fs msg newCommitID now =
     bindE (staging_nonempty fs) (\<lambda>nonempty.
       if \<not> nonempty then Inr (False, fs)
       else bindE (addOnTail fs msg newCommitID now) (\<lambda>fs1.
            bindE (clearStagingArea fs1) (\<lambda>fs2. Inr (True, fs2))))"

text \<open>\<open>gitStatus\<close> up to its display: the three vectors, as relative paths.\<close>

definition status_entry :: "filesystem \<Rightarrow> path option \<Rightarrow> path \<Rightarrow> path list \<times> path list \<Rightarrow> error + (path list \<times> path list)" where
  "status_entry fs d rel st =
     (case st of (modified, untracked) \<Rightarrow>
        if isIgnored rel \<or> \<not> is_regular_file fs rel then Inr (modified, untracked)
        else (let inStaging = exists_path fs (staging_area @ rel);
                  inCommit = exists_below fs d rel
              in if inCommit \<and> \<not> inStaging then
                   bindE (case d of None \<Rightarrow> Inr False | Some p \<Rightarrow> filesAreSame fs rel (p @ rel)) (\<lambda>same.
                     Inr (if \<not> same then modified @ [rel] else modified, untracked))
                 else if \<not> inCommit \<and> \<not> inStaging then Inr (modified, untracked @ [rel])
                 else Inr (modified, untracked)))"

definition scan_staging :: "filesystem \<Rightarrow> error + path list" where
  "scan_staging fs =
     (if exists_path fs staging_area then
        bindE (recursive_directory_iterator fs staging_area) (\<lambda>es.
          Inr (filter (\<lambda>rel. is_regular_file fs (staging_area @ rel)) es))
      else Inr [])"

definition gitStatus :: "filesystem \<Rightarrow> error + (path list \<times> path list \<times> path list)" where
  "gitStatus fs =
     bindE (scan_staging fs) (\<lambda>staged.
     bindE (foldE (status_entry fs (committedData fs)) (walk_root fs) ([], [])) (\<lambda>(modified, untracked).
     Inr (staged, modified, untracked)))"

definition gitRevert :: "filesystem \<Rightarrow> string \<Rightarrow> string \<Rightarrow> string \<Rightarrow> error + (bool \<times> filesystem)" where
  "gitRevert fs hash newCommitID now = revertCommit fs hash newCommitID now"

definition gitLog :: "filesystem \<Rightarrow> (error + string list) option" where
  "gitLog fs = printCommitList fs"

section \<open>Notions for the statements\<close>

text \<open>The bytes of the regular file at a path, if there is one.\<close>

definition file_at :: "filesystem \<Rightarrow> path \<Rightarrow> string option" where
  "file_at fs p = (case lookup fs p of Some (File c) \<Rightarrow> Some c | _ \<Rightarrow> None)"

text \<open>A file system is a tree: whatever exists lies in directories.\<close>

definition well_formed :: "filesystem \<Rightarrow> bool" where
  "well_formed fs = list_all (\<lambda>p. list_all (is_directory fs) (butlast (prefixes p))) (map fst fs)"

text \<open>\<open>unchanged_outside B fs fs'\<close>: outside the subtree at \<open>B\<close> nothing differs between the
  two file systems, but that missing ancestors of \<open>B\<close> may have become directories.\<close>

definition unchanged_outside :: "path \<Rightarrow> filesystem \<Rightarrow> filesystem \<Rightarrow> bool" where
  "unchanged_outside B fs fs' =
     (\<forall>q. \<not> prefix B q \<longrightarrow>
        lookup fs' q = lookup fs q \<or>
        (strict_prefix q B \<and> lookup fs q = None \<and> lookup fs' q = Some Dir))"

text \<open>The working tree as \<open>gitStatus\<close> and \<open>gitAdd()\<close> see it: the regular files their
  walk reaches and does not ignore.\<close>

definition working_files :: "filesystem \<Rightarrow> path list" where
  "working_files fs = filter (\<lambda>rel. \<not> isIgnored rel \<and> is_regular_file fs rel) (walk_root fs)"

text \<open>Below the snapshot directory of the head (if there is a head): is the relative
  path a directory, and the bytes of the regular file there.\<close>

definition dir_below :: "filesystem \<Rightarrow> path option \<Rightarrow> path \<Rightarrow> bool" where
  "dir_below fs d rel = (case d of None \<Rightarrow> False | Some p \<Rightarrow> is_directory fs (p @ rel))"

definition file_below :: "filesystem \<Rightarrow> path option \<Rightarrow> path \<Rightarrow> string option" where
  "file_below fs d rel = (case d of None \<Rightarrow> None | Some p \<Rightarrow> file_at fs (p @ rel))"

text \<open>The parent \<open>addOnTail\<close> reads from HEAD: empty when there is no commit yet.\<close>

definition parent_of_head :: "filesystem \<Rightarrow> string" where
  "parent_of_head fs =
     (let parentID = trim (read_first_line fs HEAD_path)
      in if parentID = ''NULL'' then [] else parentID)"

text \<open>An identifier or reference that is one path component: not empty, not \<open>.\<close> or
  \<open>..\<close>, and with no separator in it.\<close>

definition plain_name :: "string \<Rightarrow> bool" where
  "plain_name s = (s \<noteq> [] \<and> s \<noteq> ''.'' \<and> s \<noteq> ''..'' \<and> CHR ''/'' \<notin> set s)"

text \<open>The lines of a record that \<open>printCommitList\<close> reads without error: none of them is
  a lone \<open>1\<close>, \<open>2\<close>, \<open>3\<close> or \<open>4\<close>, on which \<open>line.substr(2)\<close> throws.\<close>

definition readable :: "string list \<Rightarrow> bool" where
  "readable ls = list_all (\<lambda>line. \<not> (length line = 1 \<and> hd line \<in> set ''1234'')) ls"

text \<open>\<open>walk_commits n\<close>: the first \<open>n\<close> rounds of the loop of \<open>printCommitList\<close>, all of them
  on commits whose record exists and is read without error; the result is the
  identifier the next round would start from and the output so far.\<close>

fun walk_commits :: "nat \<Rightarrow> filesystem \<Rightarrow> string \<Rightarrow> string list \<Rightarrow> (string \<times> string list) option" where
  "walk_commits 0 fs currID out = Some (currID, out)"
| "walk_commits (Suc n) fs currID out =
     (if currID \<noteq> [] \<and> currID \<noteq> ''NULL'' \<and> exists_path fs (commitInfoPath currID) then
        (case print_step fs currID out of
           Inl e \<Rightarrow> None
         | Inr (nextID, out1) \<Rightarrow> walk_commits n fs nextID out1)
      else None)"

section \<open>Example repositories\<close>

text \<open>\<open>repo1\<close>: one commit \<open>AAAAAAAA\<close> with \<open>a.txt\<close> and \<open>b.txt\<close>; \<open>a.txt\<close> was edited and
  staged.  \<open>repo2\<close> is \<open>repo1\<close> after \<open>commit\<close> created \<open>BBBBBBBB\<close>.\<close>

definition repo1 :: filesystem where
  "repo1 =
    [([''.git''], Dir),
     ([''.git'', ''HEAD''], File ''AAAAAAAA''),
     ([''.git'', ''staging_area''], Dir),
     ([''.git'', ''staging_area'', ''a.txt''], File ''v2''),
     ([''.git'', ''commits''], Dir),
     ([''.git'', ''commits'', ''AAAAAAAA''], Dir),
     ([''.git'', ''commits'', ''AAAAAAAA'', ''Data''], Dir),
     ([''.git'', ''commits'', ''AAAAAAAA'', ''Data'', ''a.txt''], File ''v1''),
     ([''.git'', ''commits'', ''AAAAAAAA'', ''Data'', ''b.txt''], File ''w1''),
     ([''.git'', ''commits'', ''AAAAAAAA'', ''commitInfo.txt''],
        File (commitInfo_text ''AAAAAAAA'' [] ''first'' ''2026/01/01 10:00'')),
     ([''a.txt''], File ''v2''),
     ([''b.txt''], File ''w1'')]"

definition repo2 :: filesystem where
  "repo2 =
    [([''.git''], Dir),
     ([''.git'', ''HEAD''], File ''BBBBBBBB''),
     ([''.git'', ''commits''], Dir),
     ([''.git'', ''commits'', ''AAAAAAAA''], Dir),
     ([''.git'', ''commits'', ''AAAAAAAA'', ''Data''], Dir),
     ([''.git'', ''commits'', ''AAAAAAAA'', ''Data'', ''a.txt''], File ''v1''),
     ([''.git'', ''commits'', ''AAAAAAAA'', ''Data'', ''b.txt''], File ''w1''),
     ([''.git'', ''commits'', ''AAAAAAAA'', ''commitInfo.txt''],
        File (commitInfo_text ''AAAAAAAA'' [] ''first'' ''2026/01/01 10:00'')),
     ([''a.txt''], File ''v2''),
     ([''b.txt''], File ''w1''),
     ([''.git'', ''commits'', ''BBBBBBBB''], Dir),
     ([''.git'', ''commits'', ''BBBBBBBB'', ''Data''], Dir),
     ([''.git'', ''commits'', ''BBBBBBBB'', ''Data'', ''b.txt''], File ''w1''),
     ([''.git'', ''commits'', ''BBBBBBBB'', ''Data'', ''a.txt''], File ''v2''),
     ([''.git'', ''commits'', ''BBBBBBBB'', ''commitInfo.txt''],
        File (commitInfo_text ''BBBBBBBB'' ''AAAAAAAA'' ''second'' ''2026/01/02 10:00'')),
     ([''.git'', ''staging_area''], Dir)]"

text \<open>\<open>repo3\<close>: \<open>repo1\<close> with \<open>a.txt\<close> edited back to what the head has, the staged copy now
  stale.  \<open>repo4\<close>: the head \<open>BBBBBBBB\<close> names the parent \<open>AAAAAAAA\<close>, of which
  there is no record; in \<open>repo5\<close> the same commit is a root.\<close>

definition repo3 :: filesystem where
  "repo3 = AList.update [''a.txt''] (File ''v1'') repo1"

definition repo4 :: filesystem where
  "repo4 =
    [([''.git''], Dir),
     ([''.git'', ''HEAD''], File ''BBBBBBBB''),
     ([''.git'', ''staging_area''], Dir),
     ([''.git'', ''commits''], Dir),
     ([''.git'', ''commits'', ''BBBBBBBB''], Dir),
     ([''.git'', ''commits'', ''BBBBBBBB'', ''Data''], Dir),
     ([''.git'', ''commits'', ''BBBBBBBB'', ''Data'', ''a.txt''], File ''v2''),
     ([''.git'', ''commits'', ''BBBBBBBB'', ''commitInfo.txt''],
        File (commitInfo_text ''BBBBBBBB'' ''AAAAAAAA'' ''second'' ''2026/01/02 10:00'')),
     ([''a.txt''], File ''v2'')]"

definition repo5 :: filesystem where
  "repo5 =
    [([''.git''], Dir),
     ([''.git'', ''HEAD''], File ''BBBBBBBB''),
     ([''.git'', ''staging_area''], Dir),
     ([''.git'', ''commits''], Dir),
     ([''.git'', ''commits'', ''BBBBBBBB''], Dir),
     ([''.git'', ''commits'', ''BBBBBBBB'', ''Data''], Dir),
     ([''.git'', ''commits'', ''BBBBBBBB'', ''Data'', ''a.txt''], File ''v2''),
     ([''.git'', ''commits'', ''BBBBBBBB'', ''commitInfo.txt''],
        File (commitInfo_text ''BBBBBBBB'' [] ''second'' ''2026/01/02 10:00'')),
     ([''a.txt''], File ''v2'')]"

text \<open>\<open>repo6\<close>: the head \<open>AAAAAAAA\<close> has \<open>a.txt\<close> and \<open>b.txt\<close>; in the working tree \<open>a.txt\<close> is
  as committed, \<open>b.txt\<close> is edited, \<open>c.txt\<close> is new and staged, \<open>d.txt\<close> is new, and
  there is a \<open>.gitignore\<close>.\<close>

definition repo6 :: filesystem where
  "repo6 =
    [([''.git''], Dir),
     ([''.git'', ''HEAD''], File ''AAAAAAAA''),
     ([''.git'', ''staging_area''], Dir),
     ([''.git'', ''staging_area'', ''c.txt''], File ''x1''),
     ([''.git'', ''commits''], Dir),
     ([''.git'', ''commits'', ''AAAAAAAA''], Dir),
     ([''.git'', ''commits'', ''AAAAAAAA'', ''Data''], Dir),
     ([''.git'', ''commits'', ''AAAAAAAA'', ''Data'', ''a.txt''], File ''v1''),
     ([''.git'', ''commits'', ''AAAAAAAA'', ''Data'', ''b.txt''], File ''w1''),
     ([''.git'', ''commits'', ''AAAAAAAA'', ''commitInfo.txt''],
        File (commitInfo_text ''AAAAAAAA'' [] ''first'' ''2026/01/01 10:00'')),
     ([''.gitignore''], File ''*.o''),
     ([''a.txt''], File ''v1''),
     ([''b.txt''], File ''w2''),
     ([''c.txt''], File ''x1''),
     ([''d.txt''], File ''y1'')]"

text \<open>\<open>repo7\<close>: no commit yet; a directory \<open>d.txt\<close> with the file \<open>old.txt\<close> was staged, then
  the directory was replaced by a file \<open>d.txt\<close>.  \<open>repo8\<close>: the head \<open>AAAAAAAA\<close> has the
  file \<open>docs/readme\<close>; in the working tree \<open>docs\<close> is now a file.  \<open>repo9\<close>: \<open>repo2\<close> with
  a head file that names \<open>ZZZZZZZZ\<close>, of which there is no record.\<close>

definition repo7 :: filesystem where
  "repo7 =
    [([''.git''], Dir),
     ([''.git'', ''HEAD''], File ''NULL''),
     ([''.git'', ''staging_area''], Dir),
     ([''.git'', ''staging_area'', ''d.txt''], Dir),
     ([''.git'', ''staging_area'', ''d.txt'', ''old.txt''], File ''o1''),
     ([''.git'', ''commits''], Dir),
     ([''d.txt''], File ''y1'')]"

definition repo8 :: filesystem where
  "repo8 =
    [([''.git''], Dir),
     ([''.git'', ''HEAD''], File ''AAAAAAAA''),
     ([''.git'', ''staging_area''], Dir),
     ([''.git'', ''commits''], Dir),
     ([''.git'', ''commits'', ''AAAAAAAA''], Dir),
     ([''.git'', ''commits'', ''AAAAAAAA'', ''Data''], Dir),
     ([''.git'', ''commits'', ''AAAAAAAA'', ''Data'', ''docs''], Dir),
     ([''.git'', ''commits'', ''AAAAAAAA'', ''Data'', ''docs'', ''readme''], File ''r1''),
     ([''.git'', ''commits'', ''AAAAAAAA'', ''commitInfo.txt''],
        File (commitInfo_text ''AAAAAAAA'' [] ''first'' ''2026/01/01 10:00'')),
     ([''docs''], File ''d1'')]"


text \<open>A run of the commands: \<open>init\<close>, a file \<open>a.txt\<close> = v1, \<open>add .\<close>, \<open>commit\<close>, the file
  edited to v2, \<open>status\<close>, \<open>add a.txt\<close>, \<open>status\<close>, \<open>commit\<close>, then \<open>revert\<close> to the first
  commit.  It yields the two results of \<open>status\<close>, the log and the record of the second
  commit before the revert, and \<open>a.txt\<close> in the snapshot of the revert commit and in
  the working tree.\<close>

definition scenario :: "error + ((path list \<times> path list \<times> path list) \<times> (path list \<times> path list \<times> path list)
    \<times> (error + string list) option \<times> string list \<times> string option \<times> string option)" where
  "scenario =
     (let fs0 = AList.update [''a.txt''] (File ''v1'') (gitInit []) in
      bindE (gitAdd fs0) (\<lambda>fs1.
      bindE (gitCommit fs1 ''first'' ''AAAAAAAA'' ''2026/01/01 10:00'') (\<lambda>(ok1, fs2).
      let fs3 = AList.update [''a.txt''] (File ''v2'') fs2 in
      bindE (gitStatus fs3) (\<lambda>status1.
      bindE (gitAdd_named fs3 [[''a.txt'']]) (\<lambda>(warnings, fs4).
      bindE (gitStatus fs4) (\<lambda>status2.
      bindE (gitCommit fs4 ''second'' ''BBBBBBBB'' ''2026/01/02 10:00'') (\<lambda>(ok2, fs5).
      bindE (gitRevert fs5 ''AAAAAAAA'' ''CCCCCCCC'' ''2026/01/03 10:00'') (\<lambda>(ok3, fs6).
        Inr (status1, status2, gitLog fs5, read_lines fs5 (commitInfoPath ''BBBBBBBB''),
             file_at fs6 (dataPath ''CCCCCCCC'' @ [''a.txt'']), file_at fs6 [''a.txt''])))))))))"

section \<open>Lemmas on the file system\<close>

lemma bindE_Inr [simp]: "bindE (Inr x) f = f x"
  by (simp add: bindE_def)

lemma bindE_Inl [simp]: "bindE (Inl e) f = Inl e"
  by (simp add: bindE_def)

lemma bindE_eq_Inr: "bindE m f = Inr y \<longleftrightarrow> (\<exists>x. m = Inr x \<and> f x = Inr y)"
  by (cases m) simp_all

lemma std_equal_same_length:
  "length xs = length ys \<Longrightarrow> fst (std_equal xs ys) = (xs = ys)"
  by (induction xs ys rule: std_equal.induct) (auto split: prod.splits)

lemma lookup_update:
  "lookup (AList.update p n fs) q = (if q = [] then Some Dir else if q = p then Some n else lookup fs q)"
  by (simp add: lookup_def update_conv')

lemma lookup_delete:
  "lookup (AList.delete p fs) q = (if q = [] then Some Dir else if q = p then None else lookup fs q)"
  by (simp add: lookup_def delete_conv')

lemma map_of_filter_keys:
  "map_of (filter (\<lambda>(k, v). P k) xs) q = (if P q then map_of xs q else None)"
  by (induction xs) auto

lemma lookup_remove_all:
  "lookup (remove_all fs p) q = (if q = [] then Some Dir else if prefix p q then None else lookup fs q)"
  by (simp add: lookup_def remove_all_def map_of_filter_keys)

lemma lookup_Nil [simp]: "lookup fs [] = Some Dir"
  by (simp add: lookup_def)

lemma set_tl_prefixes: "set (tl (prefixes p)) = {q. prefix q p \<and> q \<noteq> []}"
  by (cases p) (auto simp: prefix_Cons)

lemma mkdirs_lookup:
  "mkdirs qs fs = Inr fs' \<Longrightarrow>
   lookup fs' q = (if q \<in> set qs \<and> lookup fs q = None then Some Dir else lookup fs q)"
proof (induction qs arbitrary: fs)
  case Nil
  then show ?case by simp
next
  case (Cons a qs)
  show ?case
  proof (cases "lookup fs a")
    case None
    with Cons.prems have "mkdirs qs (AList.update a Dir fs) = Inr fs'" by simp
    from Cons.IH[OF this] None show ?thesis
      by (auto simp: lookup_update split: if_splits)
  next
    case (Some n)
    with Cons.prems obtain "n = Dir" and "mkdirs qs fs = Inr fs'"
      by (cases n) auto
    with Cons.IH[of fs] Some show ?thesis by auto
  qed
qed

lemma mkdirs_no_file:
  "mkdirs qs fs = Inr fs' \<Longrightarrow> q \<in> set qs \<Longrightarrow> lookup fs q \<noteq> Some (File c)"
proof (induction qs arbitrary: fs)
  case Nil
  then show ?case by simp
next
  case (Cons a qs)
  show ?case
  proof (cases "lookup fs a")
    case None
    with Cons.prems have m: "mkdirs qs (AList.update a Dir fs) = Inr fs'" by simp
    show ?thesis
    proof (cases "q = a")
      case True
      with None show ?thesis by simp
    next
      case False
      with Cons.prems have "q \<in> set qs" by simp
      from Cons.IH[OF m this] False show ?thesis
        by (auto simp: lookup_update split: if_splits)
    qed
  next
    case (Some n)
    with Cons.prems obtain "n = Dir" and "mkdirs qs fs = Inr fs'"
      by (cases n) auto
    with Cons.IH[of fs] Some Cons.prems show ?thesis by auto
  qed
qed

lemma mkdirs_dir:
  assumes "mkdirs qs fs = Inr fs'" and "q \<in> set qs"
  shows "lookup fs' q = Some Dir"
proof (cases "lookup fs q")
  case None
  with mkdirs_lookup[OF assms(1), of q] assms(2) show ?thesis by simp
next
  case (Some n)
  with mkdirs_no_file[OF assms] have "n = Dir" by (cases n) auto
  with mkdirs_lookup[OF assms(1), of q] Some show ?thesis by simp
qed

lemma create_directories_lookup:
  "create_directories fs p = Inr fs' \<Longrightarrow>
   lookup fs' q = (if prefix q p \<and> lookup fs q = None then Some Dir else lookup fs q)"
  unfolding create_directories_def
  by (drule mkdirs_lookup[where q=q]) (auto simp: set_tl_prefixes)

lemma create_directories_dir:
  "create_directories fs p = Inr fs' \<Longrightarrow> prefix q p \<Longrightarrow> lookup fs' q = Some Dir"
  unfolding create_directories_def
  by (cases "q = []") (auto simp: set_tl_prefixes dest!: mkdirs_dir[where q=q])

lemma create_directories_file_at:
  "create_directories fs p = Inr fs' \<Longrightarrow> file_at fs' q = file_at fs q"
  by (auto simp: file_at_def dest!: create_directories_lookup[where q=q])

lemma remove_path_lookup:
  "remove_path fs p = Inr fs' \<Longrightarrow> 
   lookup fs' q = (if q = [] then Some Dir else if q = p then None else lookup fs q)"
  by (auto simp: remove_path_def lookup_delete split: option.splits node.splits if_splits)

lemma copy_file_lookup:
  "copy_file fs src dst ow = Inr fs' \<Longrightarrow>
   \<exists>c. lookup fs src = Some (File c) \<and> dst \<noteq> [] \<and>
       lookup fs' q = (if q = dst then Some (File c) else lookup fs q)"
  by (auto simp: copy_file_def lookup_update split: option.splits node.splits if_splits)

lemma write_file_lookup:
  "write_file fs p c = Some fs' \<Longrightarrow>
   p \<noteq> [] \<and> lookup fs' q = (if q = p then Some (File c) else lookup fs q)"
  by (auto simp: write_file_def lookup_update is_directory_def split: if_splits)

lemma create_directory_lookup:
  "create_directory fs p = Inr fs' \<Longrightarrow>
   lookup fs' q = (if q = p \<and> lookup fs p = None then Some Dir else lookup fs q)"
  by (auto simp: create_directory_def lookup_update split: option.splits node.splits if_splits)

lemma set_entries_below:
  "set (entries_below fs d) = {rel. rel \<noteq> [] \<and> exists_path fs (d @ rel)}"
proof (intro set_eqI iffI)
  fix rel
  assume "rel \<in> set (entries_below fs d)"
  then obtain p where p: "p \<in> fst ` set fs" "strict_prefix d p" "rel = drop (length d) p"
    by (auto simp: entries_below_def)
  from p(2) obtain z zs where "p = d @ z # zs" by (rule strict_prefixE')
  with p(3) have rel: "rel = z # zs" "p = d @ rel" by simp_all
  from p(1) have "map_of fs p \<noteq> None" by (simp add: map_of_eq_None_iff)
  with rel show "rel \<in> {rel. rel \<noteq> [] \<and> exists_path fs (d @ rel)}"
    by (simp add: exists_path_def lookup_def)
next
  fix rel
  assume "rel \<in> {rel. rel \<noteq> [] \<and> exists_path fs (d @ rel)}"
  then have ne: "rel \<noteq> []" and "map_of fs (d @ rel) \<noteq> None"
    by (auto simp: exists_path_def lookup_def)
  then have "d @ rel \<in> fst ` set fs" by (simp add: map_of_eq_None_iff)
  moreover from ne have "strict_prefix d (d @ rel)"
    by (cases rel) (auto intro: strict_prefixI')
  ultimately have "d @ rel \<in> set (filter (strict_prefix d) (remdups (map fst fs)))" by simp
  then have "drop (length d) (d @ rel) \<in> set (entries_below fs d)"
    unfolding entries_below_def set_map by (rule imageI)
  then show "rel \<in> set (entries_below fs d)" by simp
qed

lemma distinct_entries_below: "distinct (entries_below fs d)"
  unfolding entries_below_def
  by (rule distinct_map[THEN iffD2]) (auto simp: inj_on_def strict_prefix_def prefix_def)

lemma file_at_Nil [simp]: "file_at fs [] = None"
  by (simp add: file_at_def)

lemma remove_path_file_at:
  "remove_path fs p = Inr fs' \<Longrightarrow> file_at fs' q = (if q = p then None else file_at fs q)"
  by (auto simp: file_at_def dest!: remove_path_lookup[where q=q])

lemma copy_file_file_at:
  "copy_file fs src dst ow = Inr fs' \<Longrightarrow>
   file_at fs src \<noteq> None \<and> file_at fs' q = (if q = dst then file_at fs src else file_at fs q)"
  by (auto simp: file_at_def dest!: copy_file_lookup[where q=q])

lemma write_file_file_at:
  "write_file fs p c = Some fs' \<Longrightarrow> file_at fs' q = (if q = p then Some c else file_at fs q)"
  by (auto simp: file_at_def dest!: write_file_lookup[where q=q])

lemma create_directory_file_at:
  "create_directory fs p = Inr fs' \<Longrightarrow> file_at fs' q = file_at fs q"
  by (auto simp: file_at_def dest!: create_directory_lookup[where q=q])

lemma remove_all_file_at:
  "file_at (remove_all fs p) q = (if prefix p q then None else file_at fs q)"
  by (auto simp: file_at_def lookup_remove_all)

lemma is_regular_file_file_at: "is_regular_file fs p \<longleftrightarrow> file_at fs p \<noteq> None"
  by (auto simp: is_regular_file_def file_at_def split: option.splits node.splits)

lemma copy_entry_file_at:
  assumes "copy_entry S D rel fs = Inr fs'" and "S @ rel \<noteq> D @ rel"
  shows "file_at fs' q =
           (if q = D @ rel \<and> file_at fs (S @ rel) \<noteq> None then file_at fs (S @ rel) else file_at fs q)"
proof (cases "is_regular_file fs (S @ rel)")
  case False
  with assms show ?thesis by (simp add: copy_entry_def is_regular_file_file_at)
next
  case True
  with assms(1) obtain fs1 fs2 where
    1: "create_directories fs (parent_path (D @ rel)) = Inr fs1" and
    2: "(if exists_path fs1 (D @ rel) then remove_path fs1 (D @ rel) else Inr fs1) = Inr fs2" and
    3: "copy_file fs2 (S @ rel) (D @ rel) False = Inr fs'"
    by (auto simp: copy_entry_def bindE_eq_Inr)
  have f1: "\<And>q. file_at fs1 q = file_at fs q"
    using 1 by (rule create_directories_file_at)
  have f2: "\<And>q. q \<noteq> D @ rel \<Longrightarrow> file_at fs2 q = file_at fs1 q"
    using 2 by (auto split: if_splits dest!: remove_path_file_at)
  from copy_file_file_at[OF 3, of q] f2[of "S @ rel"] f2[of q] f1 assms(2) True
  show ?thesis by (auto simp: is_regular_file_file_at)
qed

lemma foldE_copy_entry_file_at:
  assumes "foldE (copy_entry S D) es fs = Inr fs'"
    and "distinct es"
    and "\<And>r r'. S @ r \<noteq> D @ r'"
  shows "(\<forall>r\<in>set es. file_at fs (S @ r) \<noteq> None \<longrightarrow> file_at fs' (D @ r) = file_at fs (S @ r))
       \<and> (\<forall>q. (\<forall>r\<in>set es. file_at fs (S @ r) \<noteq> None \<longrightarrow> q \<noteq> D @ r) \<longrightarrow> file_at fs' q = file_at fs q)"
  using assms(1,2)
proof (induction es arbitrary: fs)
  case Nil
  then show ?case by simp
next
  case (Cons x xs)
  from Cons.prems(1) obtain fs1 where
    1: "copy_entry S D x fs = Inr fs1" and 2: "foldE (copy_entry S D) xs fs1 = Inr fs'"
    by (auto split: sum.splits)
  have step: "\<And>q. file_at fs1 q =
           (if q = D @ x \<and> file_at fs (S @ x) \<noteq> None then file_at fs (S @ x) else file_at fs q)"
    using 1 assms(3) by (rule copy_entry_file_at)
  have src: "\<And>r. file_at fs1 (S @ r) = file_at fs (S @ r)"
    using step assms(3) by simp
  from Cons.prems(2) have d: "distinct xs" "x \<notin> set xs" by simp_all
  note IH = Cons.IH[OF 2 d(1), unfolded src]
  show ?case
  proof (intro conjI ballI allI impI)
    fix r assume r: "r \<in> set (x # xs)" "file_at fs (S @ r) \<noteq> None"
    show "file_at fs' (D @ r) = file_at fs (S @ r)"
    proof (cases "r = x")
      case False
      with r IH show ?thesis by auto
    next
      case True
      have "\<forall>r'\<in>set xs. file_at fs (S @ r') \<noteq> None \<longrightarrow> D @ x \<noteq> D @ r'"
        using d(2) by auto
      with IH have "file_at fs' (D @ x) = file_at fs1 (D @ x)" by blast
      with step[of "D @ x"] r True show ?thesis by simp
    qed
  next
    fix q assume q: "\<forall>r\<in>set (x # xs). file_at fs (S @ r) \<noteq> None \<longrightarrow> q \<noteq> D @ r"
    then have "file_at fs' q = file_at fs1 q" using IH by simp
    also have "\<dots> = file_at fs q" using step[of q] q by auto
    finally show "file_at fs' q = file_at fs q" .
  qed
qed

section \<open>Lemmas on \<open>createCommit\<close>\<close>

lemma unchanged_outside_refl: "unchanged_outside B fs fs"
  by (simp add: unchanged_outside_def)

lemma unchanged_outside_trans:
  "unchanged_outside B fs fs1 \<Longrightarrow> unchanged_outside B fs1 fs2 \<Longrightarrow> unchanged_outside B fs fs2"
  unfolding unchanged_outside_def by (metis option.distinct(1))

lemma prefix_comparable:
  "prefix q p \<Longrightarrow> prefix B p \<Longrightarrow> \<not> prefix B q \<Longrightarrow> strict_prefix q B"
  by (metis prefix_same_cases strict_prefix_def)

lemma create_directories_unchanged_outside:
  assumes "create_directories fs p = Inr fs'" and "prefix p p'" and "prefix B p'"
  shows "unchanged_outside B fs fs'"
  unfolding unchanged_outside_def
proof (intro allI impI)
  fix q assume q: "\<not> prefix B q"
  show "lookup fs' q = lookup fs q \<or> strict_prefix q B \<and> lookup fs q = None \<and> lookup fs' q = Some Dir"
  proof (cases "prefix q p \<and> lookup fs q = None")
    case True
    then have "prefix q p'" using assms(2) by auto
    then have "strict_prefix q B" using assms(3) q by (rule prefix_comparable)
    with True create_directories_lookup[OF assms(1), of q] show ?thesis by simp
  next
    case False
    with create_directories_lookup[OF assms(1), of q] show ?thesis by auto
  qed
qed

lemma remove_path_unchanged_outside:
  "remove_path fs p = Inr fs' \<Longrightarrow> prefix B p \<Longrightarrow> unchanged_outside B fs fs'"
  unfolding unchanged_outside_def
proof (intro allI impI)
  fix q assume a: "remove_path fs p = Inr fs'" "prefix B p" "\<not> prefix B q"
  from remove_path_lookup[OF a(1), of q] a(2,3)
  show "lookup fs' q = lookup fs q \<or> strict_prefix q B \<and> lookup fs q = None \<and> lookup fs' q = Some Dir"
    by (cases "q = p"; cases "q = []") auto
qed

lemma copy_file_unchanged_outside:
  "copy_file fs src dst ow = Inr fs' \<Longrightarrow> prefix B dst \<Longrightarrow> unchanged_outside B fs fs'"
  unfolding unchanged_outside_def
proof (intro allI impI)
  fix q assume a: "copy_file fs src dst ow = Inr fs'" "prefix B dst" "\<not> prefix B q"
  from copy_file_lookup[OF a(1), of q] a(2,3)
  show "lookup fs' q = lookup fs q \<or> strict_prefix q B \<and> lookup fs q = None \<and> lookup fs' q = Some Dir"
    by (cases "q = dst") auto
qed

lemma write_file_unchanged_outside:
  "write_file fs p c = Some fs' \<Longrightarrow> prefix B p \<Longrightarrow> unchanged_outside B fs fs'"
  unfolding unchanged_outside_def
proof (intro allI impI)
  fix q assume a: "write_file fs p c = Some fs'" "prefix B p" "\<not> prefix B q"
  from write_file_lookup[OF a(1), of q] a(2,3)
  show "lookup fs' q = lookup fs q \<or> strict_prefix q B \<and> lookup fs q = None \<and> lookup fs' q = Some Dir"
    by (cases "q = p") auto
qed

lemma copy_entry_unchanged_outside:
  assumes "copy_entry S D rel fs = Inr fs'" and "prefix B D"
  shows "unchanged_outside B fs fs'"
proof (cases "is_regular_file fs (S @ rel)")
  case False
  with assms show ?thesis by (simp add: copy_entry_def unchanged_outside_refl)
next
  case True
  with assms(1) obtain fs1 fs2 where
    1: "create_directories fs (parent_path (D @ rel)) = Inr fs1" and
    2: "(if exists_path fs1 (D @ rel) then remove_path fs1 (D @ rel) else Inr fs1) = Inr fs2" and
    3: "copy_file fs2 (S @ rel) (D @ rel) False = Inr fs'"
    by (auto simp: copy_entry_def bindE_eq_Inr)
  have B: "prefix B (D @ rel)" using assms(2) by simp
  have "prefix (parent_path (D @ rel)) (D @ rel)"
    by (simp add: parent_path_def prefixeq_butlast)
  from create_directories_unchanged_outside[OF 1 this B]
  have u1: "unchanged_outside B fs fs1" .
  have u2: "unchanged_outside B fs1 fs2"
    using 2 B by (auto split: if_splits intro: remove_path_unchanged_outside unchanged_outside_refl)
  have u3: "unchanged_outside B fs2 fs'"
    using 3 B by (rule copy_file_unchanged_outside)
  from u1 u2 u3 show ?thesis by (blast intro: unchanged_outside_trans)
qed

lemma foldE_copy_entry_unchanged_outside:
  "foldE (copy_entry S D) es fs = Inr fs' \<Longrightarrow> prefix B D \<Longrightarrow> unchanged_outside B fs fs'"
proof (induction es arbitrary: fs)
  case Nil
  then show ?case by (simp add: unchanged_outside_refl)
next
  case (Cons x xs)
  from Cons.prems(1) obtain fs1 where
    1: "copy_entry S D x fs = Inr fs1" and 2: "foldE (copy_entry S D) xs fs1 = Inr fs'"
    by (auto split: sum.splits)
  from copy_entry_unchanged_outside[OF 1 Cons.prems(2)] Cons.IH[OF 2 Cons.prems(2)]
  show ?case by (rule unchanged_outside_trans)
qed

lemma copy_tree_unchanged_outside:
  "copy_tree fs S D = Inr fs' \<Longrightarrow> prefix B D \<Longrightarrow> unchanged_outside B fs fs'"
  by (auto simp: copy_tree_def bindE_eq_Inr intro: foldE_copy_entry_unchanged_outside)

lemma copy_tree_file_at:
  assumes "copy_tree fs S D = Inr fs'" and "\<And>r r'. S @ r \<noteq> D @ r'"
  shows "(\<forall>r. file_at fs (S @ r) \<noteq> None \<longrightarrow> file_at fs' (D @ r) = file_at fs (S @ r))
       \<and> (\<forall>q. (\<forall>r. file_at fs (S @ r) \<noteq> None \<longrightarrow> q \<noteq> D @ r) \<longrightarrow> file_at fs' q = file_at fs q)"
proof -
  from assms(1) have dir: "is_directory fs S"
    and f: "foldE (copy_entry S D) (entries_below fs S) fs = Inr fs'"
    by (auto simp: copy_tree_def recursive_directory_iterator_def bindE_eq_Inr split: if_splits)
  have mem: "\<And>r. file_at fs (S @ r) \<noteq> None \<Longrightarrow> r \<in> set (entries_below fs S)"
    using dir
    by (auto simp: set_entries_below exists_path_def file_at_def is_directory_def
          split: option.splits node.splits)
  from foldE_copy_entry_file_at[OF f distinct_entries_below assms(2)] mem
  show ?thesis by blast
qed

lemma well_formedD:
  assumes "well_formed fs" and "exists_path fs (d @ r)" and "r \<noteq> []"
  shows "is_directory fs d"
proof -
  from assms(2,3) have "map_of fs (d @ r) \<noteq> None"
    by (simp add: exists_path_def lookup_def)
  then have k: "d @ r \<in> set (map fst fs)" by (simp add: map_of_eq_None_iff)
  from assms(3) have "tl (prefixes r) \<noteq> []" by (cases r) simp_all
  then have "butlast (prefixes (d @ r)) = prefixes d @ butlast (map ((@) d) (tl (prefixes r)))"
    by (simp add: prefixes_append butlast_append)
  then have "d \<in> set (butlast (prefixes (d @ r)))" by simp
  with assms(1) k show ?thesis
    by (auto simp: well_formed_def list_all_iff)
qed

lemma file_at_exists: "file_at fs p \<noteq> None \<Longrightarrow> exists_path fs p"
  by (auto simp: file_at_def exists_path_def split: option.splits)

lemma well_formed_file_exists:
  assumes "well_formed fs" and "file_at fs (d @ r) \<noteq> None"
  shows "exists_path fs d"
proof (cases "r = []")
  case True
  with assms(2) show ?thesis by (simp add: file_at_exists)
next
  case False
  from assms(2) have "exists_path fs (d @ r)" by (rule file_at_exists)
  with assms(1) have "is_directory fs d" using False by (rule well_formedD)
  then show ?thesis by (simp add: is_directory_def exists_path_def)
qed

lemma unchanged_outside_exists:
  "unchanged_outside B fs fs' \<Longrightarrow> \<not> prefix B q \<Longrightarrow> exists_path fs q \<Longrightarrow> exists_path fs' q"
  by (auto simp: unchanged_outside_def exists_path_def)

lemma guarded_copy_tree_file_at:
  assumes "(if cond then copy_tree fs S D else Inr fs) = Inr fs'"
    and "\<And>r r'. S @ r \<noteq> D @ r'"
    and "\<And>r. g \<Longrightarrow> file_at fs (S @ r) \<noteq> None \<Longrightarrow> cond"
    and "cond \<Longrightarrow> g"
  shows "(\<forall>r. g \<and> file_at fs (S @ r) \<noteq> None \<longrightarrow> file_at fs' (D @ r) = file_at fs (S @ r))
       \<and> (\<forall>q. (\<forall>r. g \<and> file_at fs (S @ r) \<noteq> None \<longrightarrow> q \<noteq> D @ r) \<longrightarrow> file_at fs' q = file_at fs q)"
proof (cases cond)
  case True
  with assms(1) have "copy_tree fs S D = Inr fs'" by simp
  from copy_tree_file_at[OF this assms(2)] assms(4)[OF True] show ?thesis by simp
next
  case False
  with assms(1) have "fs' = fs" by simp
  with assms(3) False show ?thesis by blast
qed

lemma guarded_copy_tree_unchanged_outside:
  "(if cond then copy_tree fs S D else Inr fs) = Inr fs' \<Longrightarrow> prefix B D \<Longrightarrow> unchanged_outside B fs fs'"
  by (auto split: if_splits intro: copy_tree_unchanged_outside unchanged_outside_refl)

lemma staging_not_data [simp]: "staging_area @ r \<noteq> dataPath c @ r'"
  by (simp add: staging_area_def dataPath_def commitPath_def commitsRoot_def)

lemma data_not_data: "p \<noteq> c \<Longrightarrow> dataPath p @ r \<noteq> dataPath c @ r'"
  by (simp add: dataPath_def commitPath_def commitsRoot_def)

lemma commitInfo_not_data [simp]: "commitInfoPath c \<noteq> dataPath c' @ r"
  by (simp add: dataPath_def commitPath_def commitsRoot_def commitInfoPath_def)

lemma prefix_commitPath_dataPath [simp]: "prefix (commitPath c) (dataPath c)"
  by (simp add: dataPath_def)

lemma prefix_commitPath_commitInfoPath [simp]: "prefix (commitPath c) (commitInfoPath c)"
  by (simp add: commitInfoPath_def)

lemma unchanged_outside_dir:
  "unchanged_outside B fs fs' \<Longrightarrow> \<not> prefix B q \<Longrightarrow> is_directory fs q \<Longrightarrow> is_directory fs' q"
  by (auto simp: unchanged_outside_def is_directory_def)

lemma unchanged_outside_lookup:
  "unchanged_outside B fs fs' \<Longrightarrow> \<not> prefix B q \<Longrightarrow> \<not> prefix q B \<Longrightarrow> lookup fs' q = lookup fs q"
  by (auto simp: unchanged_outside_def strict_prefix_def)

lemma createCommit_steps:
  assumes "createCommit fs c p msg now = Inr fs'"
  obtains fs1 fs2 fs3 where
    "create_directories fs (dataPath c) = Inr fs1"
    "(if p \<noteq> [] \<and> exists_path fs1 (dataPath p) then copy_tree fs1 (dataPath p) (dataPath c) else Inr fs1) = Inr fs2"
    "(if exists_path fs2 staging_area then copy_tree fs2 staging_area (dataPath c) else Inr fs2) = Inr fs3"
    "write_file fs3 (commitInfoPath c) (commitInfo_text c p msg now) = Some fs'"
  using assms unfolding createCommit_def
  by (auto simp: bindE_eq_Inr split: option.splits)

lemma createCommit_unchanged_outside:
  assumes "createCommit fs c p msg now = Inr fs'"
  shows "unchanged_outside (commitPath c) fs fs'"
proof -
  from assms obtain fs1 fs2 fs3 where
    1: "create_directories fs (dataPath c) = Inr fs1" and
    2: "(if p \<noteq> [] \<and> exists_path fs1 (dataPath p) then copy_tree fs1 (dataPath p) (dataPath c) else Inr fs1) = Inr fs2" and
    3: "(if exists_path fs2 staging_area then copy_tree fs2 staging_area (dataPath c) else Inr fs2) = Inr fs3" and
    4: "write_file fs3 (commitInfoPath c) (commitInfo_text c p msg now) = Some fs'"
    by (rule createCommit_steps)
  have u1: "unchanged_outside (commitPath c) fs fs1"
    using 1 by (rule create_directories_unchanged_outside[where p'="dataPath c"]) simp_all
  have u2: "unchanged_outside (commitPath c) fs1 fs2"
    using 2 by (rule guarded_copy_tree_unchanged_outside) simp
  have u3: "unchanged_outside (commitPath c) fs2 fs3"
    using 3 by (rule guarded_copy_tree_unchanged_outside) simp
  have u4: "unchanged_outside (commitPath c) fs3 fs'"
    using 4 by (rule write_file_unchanged_outside) simp
  from u1 u2 u3 u4 show ?thesis by (blast intro: unchanged_outside_trans)
qed

lemma createCommit_snapshot:
  assumes cc: "createCommit fs c p msg now = Inr fs'"
    and wf: "well_formed fs"
    and ne: "c \<noteq> p"
  shows "(\<forall>r. file_at fs (staging_area @ r) \<noteq> None \<longrightarrow>
            file_at fs' (dataPath c @ r) = file_at fs (staging_area @ r))
       \<and> (\<forall>r. file_at fs (staging_area @ r) = None \<and> p \<noteq> [] \<and> file_at fs (dataPath p @ r) \<noteq> None \<longrightarrow>
            file_at fs' (dataPath c @ r) = file_at fs (dataPath p @ r))
       \<and> (\<forall>r. file_at fs (staging_area @ r) = None \<and> (p = [] \<or> file_at fs (dataPath p @ r) = None) \<longrightarrow>
            file_at fs' (dataPath c @ r) = file_at fs (dataPath c @ r))"
proof -
  from cc obtain fs1 fs2 fs3 where
    1: "create_directories fs (dataPath c) = Inr fs1" and
    2: "(if p \<noteq> [] \<and> exists_path fs1 (dataPath p) then copy_tree fs1 (dataPath p) (dataPath c) else Inr fs1) = Inr fs2" and
    3: "(if exists_path fs2 staging_area then copy_tree fs2 staging_area (dataPath c) else Inr fs2) = Inr fs3" and
    4: "write_file fs3 (commitInfoPath c) (commitInfo_text c p msg now) = Some fs'"
    by (rule createCommit_steps)
  have f1: "\<And>q. file_at fs1 q = file_at fs q"
    using 1 by (rule create_directories_file_at)
  have l1: "\<And>q. lookup fs q \<noteq> None \<Longrightarrow> lookup fs1 q = lookup fs q"
    using create_directories_lookup[OF 1] by simp
  have pd: "\<And>r. p \<noteq> [] \<Longrightarrow> file_at fs1 (dataPath p @ r) \<noteq> None \<Longrightarrow>
              p \<noteq> [] \<and> exists_path fs1 (dataPath p)"
  proof -
    fix r assume "p \<noteq> []" "file_at fs1 (dataPath p @ r) \<noteq> None"
    then have "exists_path fs (dataPath p)" using wf f1 by (auto intro: well_formed_file_exists)
    with l1[of "dataPath p"] \<open>p \<noteq> []\<close> show "p \<noteq> [] \<and> exists_path fs1 (dataPath p)"
      by (simp add: exists_path_def)
  qed
  from ne have "\<And>r r'. dataPath p @ r \<noteq> dataPath c @ r'"
    by (simp add: data_not_data)
  from guarded_copy_tree_file_at[OF 2 this pd, of "p \<noteq> []"]
  have s2a: "\<And>r. p \<noteq> [] \<Longrightarrow> file_at fs (dataPath p @ r) \<noteq> None \<Longrightarrow>
               file_at fs2 (dataPath c @ r) = file_at fs (dataPath p @ r)"
    and s2b: "\<And>q. (\<forall>r. p \<noteq> [] \<and> file_at fs (dataPath p @ r) \<noteq> None \<longrightarrow> q \<noteq> dataPath c @ r) \<Longrightarrow>
               file_at fs2 q = file_at fs q"
    by (simp_all add: f1)
  have st2: "\<And>r. file_at fs2 (staging_area @ r) = file_at fs (staging_area @ r)"
    by (rule s2b) simp
  have u12: "unchanged_outside (commitPath c) fs1 fs2"
    using 2 by (rule guarded_copy_tree_unchanged_outside) simp
  have np: "\<not> prefix (commitPath c) staging_area"
    by (simp add: commitPath_def commitsRoot_def staging_area_def)
  have sd: "\<And>r. True \<Longrightarrow> file_at fs2 (staging_area @ r) \<noteq> None \<Longrightarrow> exists_path fs2 staging_area"
  proof -
    fix r assume "file_at fs2 (staging_area @ r) \<noteq> None"
    then have "exists_path fs staging_area" using wf st2 by (auto intro: well_formed_file_exists)
    then have "exists_path fs1 staging_area" using l1[of staging_area] by (simp add: exists_path_def)
    with u12 np show "exists_path fs2 staging_area" by (rule unchanged_outside_exists)
  qed
  from guarded_copy_tree_file_at[OF 3 staging_not_data sd, of True]
  have s3a: "\<And>r. file_at fs (staging_area @ r) \<noteq> None \<Longrightarrow>
               file_at fs3 (dataPath c @ r) = file_at fs (staging_area @ r)"
    and s3b: "\<And>q. (\<forall>r. file_at fs (staging_area @ r) \<noteq> None \<longrightarrow> q \<noteq> dataPath c @ r) \<Longrightarrow>
               file_at fs3 q = file_at fs2 q"
    by (simp_all add: st2)
  have f4: "\<And>r. file_at fs' (dataPath c @ r) = file_at fs3 (dataPath c @ r)"
    using write_file_file_at[OF 4] commitInfo_not_data[of c c, symmetric] by simp
  show ?thesis
  proof (intro conjI allI impI)
    fix r assume "file_at fs (staging_area @ r) \<noteq> None"
    then show "file_at fs' (dataPath c @ r) = file_at fs (staging_area @ r)"
      by (simp add: f4 s3a)
  next
    fix r assume a: "file_at fs (staging_area @ r) = None \<and> p \<noteq> [] \<and> file_at fs (dataPath p @ r) \<noteq> None"
    then have "file_at fs3 (dataPath c @ r) = file_at fs2 (dataPath c @ r)"
      by (intro s3b) auto
    with a show "file_at fs' (dataPath c @ r) = file_at fs (dataPath p @ r)"
      by (simp add: f4 s2a)
  next
    fix r assume a: "file_at fs (staging_area @ r) = None \<and> (p = [] \<or> file_at fs (dataPath p @ r) = None)"
    then have "file_at fs3 (dataPath c @ r) = file_at fs2 (dataPath c @ r)"
      by (intro s3b) auto
    moreover from a have "file_at fs2 (dataPath c @ r) = file_at fs (dataPath c @ r)"
      by (intro s2b) auto
    ultimately show "file_at fs' (dataPath c @ r) = file_at fs (dataPath c @ r)"
      by (simp add: f4)
  qed
qed

section \<open>Lemmas on \<open>gitCommit\<close> and \<open>gitStatus\<close>\<close>

lemma HEAD_outside [simp]:
  "\<not> prefix (commitPath c) HEAD_path" "\<not> prefix HEAD_path (commitPath c)"
  "\<not> prefix staging_area HEAD_path" "\<not> prefix (commitPath c) staging_area"
  "\<not> prefix staging_area (commitInfoPath c)" "HEAD_path \<noteq> commitInfoPath c"
  "HEAD_path \<noteq> staging_area" "parent_path HEAD_path = [''.git'']"
  "prefix [''.git''] (dataPath c)" "\<not> prefix (commitPath c) [''.git'']"
  by (simp_all add: commitPath_def commitsRoot_def HEAD_path_def staging_area_def
        commitInfoPath_def dataPath_def parent_path_def)

lemma createCommit_result:
  assumes "createCommit fs c p msg now = Inr fs'"
  shows "unchanged_outside (commitPath c) fs fs'"
    and "is_directory fs' [''.git'']"
    and "file_at fs' (commitInfoPath c) = Some (commitInfo_text c p msg now)"
proof -
  from assms obtain fs1 fs2 fs3 where
    1: "create_directories fs (dataPath c) = Inr fs1" and
    2: "(if p \<noteq> [] \<and> exists_path fs1 (dataPath p) then copy_tree fs1 (dataPath p) (dataPath c) else Inr fs1) = Inr fs2" and
    3: "(if exists_path fs2 staging_area then copy_tree fs2 staging_area (dataPath c) else Inr fs2) = Inr fs3" and
    4: "write_file fs3 (commitInfoPath c) (commitInfo_text c p msg now) = Some fs'"
    by (rule createCommit_steps)
  show "unchanged_outside (commitPath c) fs fs'"
    using assms by (rule createCommit_unchanged_outside)
  have u2: "unchanged_outside (commitPath c) fs1 fs2"
    using 2 by (rule guarded_copy_tree_unchanged_outside) simp
  have u3: "unchanged_outside (commitPath c) fs2 fs3"
    using 3 by (rule guarded_copy_tree_unchanged_outside) simp
  have u4: "unchanged_outside (commitPath c) fs3 fs'"
    using 4 by (rule write_file_unchanged_outside) simp
  from u2 u3 u4 have u: "unchanged_outside (commitPath c) fs1 fs'"
    by (blast intro: unchanged_outside_trans)
  have "is_directory fs1 [''.git'']"
    using create_directories_dir[OF 1, of "[''.git'']"] by (simp add: is_directory_def)
  then show "is_directory fs' [''.git'']"
    by (intro unchanged_outside_dir[OF u]) simp_all
  show "file_at fs' (commitInfoPath c) = Some (commitInfo_text c p msg now)"
    using write_file_file_at[OF 4, of "commitInfoPath c"] by simp
qed

lemma addOnTail_result:
  assumes "addOnTail fs msg newid now = Inr fs'" and "\<not> is_directory fs HEAD_path"
  shows "file_at fs' HEAD_path = Some newid"
    and "file_at fs' (commitInfoPath newid) \<noteq> None"
    and "exists_path fs staging_area \<Longrightarrow> exists_path fs' staging_area"
proof -
  from assms(1) obtain p fsc where
    c: "createCommit fs newid p msg now = Inr fsc" and
    w: "fs' = (case write_file fsc HEAD_path newid of None \<Rightarrow> fsc | Some fs2 \<Rightarrow> fs2)"
    by (auto simp: addOnTail_def Let_def bindE_eq_Inr)
  note r = createCommit_result[OF c]
  have "lookup fsc HEAD_path = lookup fs HEAD_path"
    using r(1) by (rule unchanged_outside_lookup) simp_all
  with assms(2) have "\<not> is_directory fsc HEAD_path" by (simp add: is_directory_def)
  with r(2) obtain fs2 where w2: "write_file fsc HEAD_path newid = Some fs2"
    by (auto simp: write_file_def)
  with w have fs': "fs' = fs2" by simp
  show "file_at fs' HEAD_path = Some newid"
    using write_file_file_at[OF w2, of HEAD_path] fs' by simp
  show "file_at fs' (commitInfoPath newid) \<noteq> None"
    using write_file_file_at[OF w2, of "commitInfoPath newid"] fs' r(3) by simp
  assume "exists_path fs staging_area"
  then have "exists_path fsc staging_area"
    by (intro unchanged_outside_exists[OF r(1)]) simp_all
  then show "exists_path fs' staging_area"
    using write_file_lookup[OF w2, of staging_area] fs' by (simp add: exists_path_def)
qed

lemma clearStagingArea_result:
  assumes "clearStagingArea fs = Inr fs'" and "exists_path fs staging_area"
  shows "file_at fs' q = (if prefix staging_area q then None else file_at fs q)"
  using assms create_directory_file_at[of "remove_all fs staging_area" staging_area fs' q]
  by (simp add: clearStagingArea_def remove_all_file_at)

lemma staging_nonempty_True:
  "staging_nonempty fs = Inr True \<Longrightarrow> exists_path fs staging_area"
  by (auto simp: staging_nonempty_def split: if_splits)

lemma staging_nonempty_False:
  assumes "\<forall>rel. \<not> is_regular_file fs (staging_area @ rel)"
  shows "staging_nonempty fs = Inr False"
proof (cases "exists_path fs staging_area")
  case False
  then show ?thesis by (simp add: staging_nonempty_def)
next
  case True
  moreover from assms[rule_format, of "[]"] have "\<not> is_regular_file fs staging_area" by simp
  ultimately have "is_directory fs staging_area"
    by (auto simp: exists_path_def is_regular_file_def is_directory_def split: option.splits node.splits)
  with True assms show ?thesis
    by (simp add: staging_nonempty_def recursive_directory_iterator_def list_ex_iff)
qed

lemma filesAreSame_files:
  "lookup fs a = Some (File ca) \<Longrightarrow> lookup fs b = Some (File cb) \<Longrightarrow>
   filesAreSame fs a b = Inr (ca = cb)"
  by (auto simp: filesAreSame_def filesAreSame_counted_def exists_path_def
        file_size_def std_equal_same_length)

lemma set_walk_root: "set (walk_root fs) = {rel. rel \<noteq> [] \<and> exists_path fs rel \<and> \<not> pruned rel}"
  by (auto simp: walk_root_def set_entries_below)

lemma set_working_files:
  "set (working_files fs) = {rel. is_regular_file fs rel \<and> \<not> isIgnored rel \<and> \<not> pruned rel}"
  by (auto simp: working_files_def set_walk_root is_regular_file_def exists_path_def
        split: option.splits node.splits)

lemma status_entry_step:
  assumes "\<not> isIgnored rel \<and> is_regular_file fs rel \<and> \<not> exists_path fs (staging_area @ rel)
           \<longrightarrow> \<not> dir_below fs d rel"
  shows "status_entry fs d rel (m, u) =
     Inr (if \<not> isIgnored rel \<and> is_regular_file fs rel \<and> \<not> exists_path fs (staging_area @ rel)
             \<and> exists_below fs d rel \<and> file_below fs d rel \<noteq> file_at fs rel
          then m @ [rel] else m,
          if \<not> isIgnored rel \<and> is_regular_file fs rel \<and> \<not> exists_path fs (staging_area @ rel)
             \<and> \<not> exists_below fs d rel
          then u @ [rel] else u)"
proof (cases "\<not> isIgnored rel \<and> is_regular_file fs rel \<and> \<not> exists_path fs (staging_area @ rel)
              \<and> exists_below fs d rel")
  case False
  then show ?thesis by (auto simp: status_entry_def Let_def)
next
  case True
  then obtain p where d: "d = Some p" and e: "exists_path fs (p @ rel)"
    by (auto simp: exists_below_def split: option.splits)
  from True assms d have "\<not> is_directory fs (p @ rel)" by (simp add: dir_below_def)
  with e obtain cb where cb: "lookup fs (p @ rel) = Some (File cb)"
    by (auto simp: exists_path_def is_directory_def) (metis node.exhaust)
  from True obtain ca where ca: "lookup fs rel = Some (File ca)"
    by (auto simp: is_regular_file_def split: option.splits node.splits)
  from filesAreSame_files[OF ca cb] True d ca cb show ?thesis
    by (auto simp: status_entry_def Let_def file_below_def file_at_def)
qed

lemma foldE_status_entry:
  assumes "\<forall>rel\<in>set es. \<not> isIgnored rel \<and> is_regular_file fs rel \<and> \<not> exists_path fs (staging_area @ rel)
           \<longrightarrow> \<not> dir_below fs d rel"
  shows "foldE (status_entry fs d) es (m, u) =
     Inr (m @ filter (\<lambda>rel. \<not> isIgnored rel \<and> is_regular_file fs rel \<and> \<not> exists_path fs (staging_area @ rel)
             \<and> exists_below fs d rel \<and> file_below fs d rel \<noteq> file_at fs rel) es,
          u @ filter (\<lambda>rel. \<not> isIgnored rel \<and> is_regular_file fs rel \<and> \<not> exists_path fs (staging_area @ rel)
             \<and> \<not> exists_below fs d rel) es)"
  using assms
proof (induction es arbitrary: m u)
  case Nil
  then show ?case by simp
next
  case (Cons x xs)
  from Cons.prems have x: "\<not> isIgnored x \<and> is_regular_file fs x \<and> \<not> exists_path fs (staging_area @ x)
           \<longrightarrow> \<not> dir_below fs d x" by simp
  from Cons.prems have xs: "\<forall>rel\<in>set xs. \<not> isIgnored rel \<and> is_regular_file fs rel \<and> \<not> exists_path fs (staging_area @ rel)
           \<longrightarrow> \<not> dir_below fs d rel" by simp
  show ?case
    by (simp only: foldE.simps status_entry_step[OF x] sum.case Cons.IH[OF xs]) auto
qed

lemma scan_staging_result:
  assumes "\<not> is_regular_file fs staging_area" and "well_formed fs"
  shows "\<exists>staged. scan_staging fs = Inr staged \<and> set staged = {rel. is_regular_file fs (staging_area @ rel)}"
proof (cases "exists_path fs staging_area")
  case True
  with assms have d: "is_directory fs staging_area"
    by (auto simp: exists_path_def is_regular_file_def is_directory_def split: option.splits node.splits)
  have "\<And>rel. is_regular_file fs (staging_area @ rel) \<Longrightarrow> rel \<noteq> [] \<and> exists_path fs (staging_area @ rel)"
    using assms by (auto simp: is_regular_file_def exists_path_def split: option.splits)
  with True d show ?thesis
    by (auto simp: scan_staging_def recursive_directory_iterator_def set_entries_below)
next
  case False
  have "\<And>rel. \<not> is_regular_file fs (staging_area @ rel)"
    using False well_formed_file_exists[OF assms(2), of staging_area]
    unfolding is_regular_file_file_at by blast
  with False show ?thesis by (simp add: scan_staging_def)
qed

section \<open>Lemmas on \<open>gitLog\<close> and \<open>gitAdd\<close>\<close>

lemma print_loop_walk:
  assumes "walk_commits n fs currID out = Some (lastID, out')"
    and "\<not> exists_path fs (commitInfoPath lastID)"
  shows "print_loop fs currID out = Some (Inr out')"
  using assms
proof (induction n arbitrary: currID out)
  case 0
  then show ?case by (subst print_loop.simps) simp
next
  case (Suc n)
  from Suc.prems(1) obtain nextID out1 where
    c: "currID \<noteq> []" "currID \<noteq> ''NULL''" "exists_path fs (commitInfoPath currID)" and
    s: "print_step fs currID out = Inr (nextID, out1)" and
    w: "walk_commits n fs nextID out1 = Some (lastID, out')"
    by (auto split: if_splits sum.splits)
  from Suc.IH[OF w Suc.prems(2)] c s show ?case
    by (subst print_loop.simps) simp
qed

lemma print_info_readable:
  "(\<exists>r. print_info ls out p = Inr r) \<longleftrightarrow> readable ls"
proof (induction ls arbitrary: out p)
  case Nil
  then show ?case by (simp add: readable_def)
next
  case (Cons line ls)
  show ?case
  proof (cases "length line < 2")
    case True
    then have "line = [] \<or> (\<exists>c. line = [c])"
      by (cases line) (auto simp: length_Suc_conv)
    then show ?thesis using Cons.IH
      by (auto simp: readable_def substr2_def bindE_def)
  next
    case False
    then show ?thesis using Cons.IH
      by (auto simp: readable_def substr2_def bindE_def)
  qed
qed

lemma print_step_readable:
  "(\<exists>r. print_step fs currID out = Inr r) \<longleftrightarrow> readable (read_lines fs (commitInfoPath currID))"
  using print_info_readable[of "read_lines fs (commitInfoPath currID)" out "[]"]
  by (auto simp: print_step_def split: sum.splits)

lemma add_entry_other_frame:
  assumes "add_entry d rel fs = Inr fs'" and "r \<noteq> rel"
  shows "file_at fs' (staging_area @ r) = file_at fs (staging_area @ r)"
proof (cases "isIgnored rel \<or> \<not> is_regular_file fs rel")
  case True
  with assms(1) have "fs' = fs" by (auto simp: add_entry_def split: if_splits)
  then show ?thesis by simp
next
  case False
  from assms(2) have ne: "staging_area @ r \<noteq> staging_area @ rel" by auto
  from False assms(1) obtain same where
    b: "(if same then (if exists_path fs (staging_area @ rel) then remove_path fs (staging_area @ rel) else Inr fs)
         else bindE (create_directories fs (parent_path (staging_area @ rel))) (\<lambda>fs1.
               copy_file fs1 rel (staging_area @ rel) True)) = Inr fs'"
    by (auto simp: add_entry_def bindE_eq_Inr)
  show ?thesis
  proof (cases same)
    case True
    with b ne show ?thesis
      by (auto split: if_splits dest!: remove_path_file_at[where q="staging_area @ r"])
  next
    case f: False
    with b obtain fs1 where
      1: "create_directories fs (parent_path (staging_area @ rel)) = Inr fs1" and
      2: "copy_file fs1 rel (staging_area @ rel) True = Inr fs'"
      by (auto simp: bindE_eq_Inr)
    from copy_file_file_at[OF 2, of "staging_area @ r"] create_directories_file_at[OF 1] ne
    show ?thesis by simp
  qed
qed

lemma add_entry_outside_frame:
  assumes "add_entry d rel fs = Inr fs'" and "\<not> prefix staging_area q"
  shows "file_at fs' q = file_at fs q"
proof (cases "isIgnored rel \<or> \<not> is_regular_file fs rel")
  case True
  with assms(1) have "fs' = fs" by (auto simp: add_entry_def split: if_splits)
  then show ?thesis by simp
next
  case False
  from assms(2) have ne: "q \<noteq> staging_area @ rel" by auto
  from False assms(1) obtain same where
    b: "(if same then (if exists_path fs (staging_area @ rel) then remove_path fs (staging_area @ rel) else Inr fs)
         else bindE (create_directories fs (parent_path (staging_area @ rel))) (\<lambda>fs1.
               copy_file fs1 rel (staging_area @ rel) True)) = Inr fs'"
    by (auto simp: add_entry_def bindE_eq_Inr)
  show ?thesis
  proof (cases same)
    case True
    with b ne show ?thesis
      by (auto split: if_splits dest!: remove_path_file_at[where q=q])
  next
    case f: False
    with b obtain fs1 where
      1: "create_directories fs (parent_path (staging_area @ rel)) = Inr fs1" and
      2: "copy_file fs1 rel (staging_area @ rel) True = Inr fs'"
      by (auto simp: bindE_eq_Inr)
    from copy_file_file_at[OF 2, of q] create_directories_file_at[OF 1] ne
    show ?thesis by simp
  qed
qed

lemma add_entry_prunes:
  assumes "add_entry (Some p) rel fs = Inr fs'"
    and "\<not> isIgnored rel"
    and "file_at fs rel = Some c" and "file_at fs (p @ rel) = Some c"
  shows "file_at fs' (staging_area @ rel) = None"
proof -
  from assms(3,4) have l: "lookup fs rel = Some (File c)" "lookup fs (p @ rel) = Some (File c)"
    by (auto simp: file_at_def split: option.splits node.splits)
  then have "same_as_committed fs (Some p) rel = Inr True"
    by (simp add: same_as_committed_def exists_path_def filesAreSame_files)
  with assms(1,2) l(1) have
    "(if exists_path fs (staging_area @ rel) then remove_path fs (staging_area @ rel) else Inr fs) = Inr fs'"
    by (simp add: add_entry_def is_regular_file_def)
  then show ?thesis
    by (auto simp: file_at_def exists_path_def split: if_splits dest!: remove_path_lookup[where q="staging_area @ rel"])
qed

lemma foldE_add_entry_prunes:
  assumes "foldE (add_entry (Some p)) es fs = Inr fs'"
    and "rel \<in> set es" and "distinct es"
    and "\<not> isIgnored rel"
    and "\<not> prefix staging_area rel" and "\<not> prefix staging_area (p @ rel)"
    and "file_at fs rel = Some c" and "file_at fs (p @ rel) = Some c"
  shows "file_at fs' (staging_area @ rel) = None"
  using assms(1,2,3,7,8)
proof (induction es arbitrary: fs)
  case Nil
  then show ?case by simp
next
  case (Cons x xs)
  from Cons.prems(1) obtain fs1 where
    1: "add_entry (Some p) x fs = Inr fs1" and 2: "foldE (add_entry (Some p)) xs fs1 = Inr fs'"
    by (auto split: sum.splits)
  have k: "file_at fs1 rel = Some c" "file_at fs1 (p @ rel) = Some c"
    using add_entry_outside_frame[OF 1] assms(5,6) Cons.prems(4,5) by simp_all
  show ?case
  proof (cases "rel \<in> set xs")
    case True
    with Cons.prems(3) have "distinct xs" by simp
    from Cons.IH[OF 2 True this k] show ?thesis .
  next
    case False
    with Cons.prems(2) have x: "x = rel" by simp
    from add_entry_prunes[OF 1[unfolded x] assms(4) Cons.prems(4,5)]
    have n: "file_at fs1 (staging_area @ rel) = None" .
    have "\<And>fs2. foldE (add_entry (Some p)) xs fs1 = Inr fs2 \<Longrightarrow>
                file_at fs2 (staging_area @ rel) = file_at fs1 (staging_area @ rel)"
      using False
    proof (induction xs arbitrary: fs1)
      case Nil
      then show ?case by simp
    next
      case (Cons y ys)
      from Cons.prems(1) obtain fs3 where
        3: "add_entry (Some p) y fs1 = Inr fs3" and 4: "foldE (add_entry (Some p)) ys fs3 = Inr fs2"
        by (auto split: sum.splits)
      from Cons.prems(2) have "rel \<noteq> y" "rel \<notin> set ys" by auto
      with Cons.IH[OF 4] add_entry_other_frame[OF 3, of rel] show ?case by simp
    qed
    from this[OF 2] n show ?thesis by simp
  qed
qed

lemma distinct_walk_root: "distinct (walk_root fs)"
  by (simp add: walk_root_def distinct_entries_below)







lemma prefix_hd_join_path: "rel \<noteq> [] \<Longrightarrow> prefix (hd rel) (join_path rel)"
  by (induction rel rule: join_path.induct) auto

lemma isIgnored_reserved:
  assumes "rel \<noteq> []"
    and "hd rel = ''.git'' \<or> hd rel = ''.vscode'' \<or> last rel = ''mygit'' \<or> last rel = ''mygit.exe''"
  shows "isIgnored rel"
  using assms prefix_hd_join_path[of rel]
  by (auto simp: isIgnored_def Let_def path_string_def filename_def)

lemma isIgnored_git:
  "prefix [''.git''] rel \<Longrightarrow> isIgnored rel"
  by (cases rel) (auto simp: isIgnored_reserved)

section \<open>What \<open>revert\<close> and \<open>add .\<close> do\<close>

text \<open>
  The snapshot of the commit a successful \<open>gitRevert\<close> creates does not depend on the
  commit reverted to: it is the staging area laid over the snapshot of the head (in a
  well-formed file system, the new identifier being other than the head's).
\<close>

lemma addOnTail_snapshot:
  assumes "addOnTail fs msg newid now = Inr fs'"
  shows "\<exists>fsc. createCommit fs newid (parent_of_head fs) msg now = Inr fsc
             \<and> (\<forall>rel. file_at fs' (dataPath newid @ rel) = file_at fsc (dataPath newid @ rel))"
proof -
  from assms obtain fsc where
    c: "createCommit fs newid (parent_of_head fs) msg now = Inr fsc" and
    w: "fs' = (case write_file fsc HEAD_path newid of None \<Rightarrow> fsc | Some fs2 \<Rightarrow> fs2)"
    by (auto simp: addOnTail_def parent_of_head_def Let_def bindE_eq_Inr)
  have ne: "\<And>rel. dataPath newid @ rel \<noteq> HEAD_path"
    by (simp add: dataPath_def commitPath_def commitsRoot_def HEAD_path_def)
  have "\<forall>rel. file_at fs' (dataPath newid @ rel) = file_at fsc (dataPath newid @ rel)"
  proof (cases "write_file fsc HEAD_path newid")
    case None
    with w show ?thesis by simp
  next
    case (Some fs2)
    with w have "fs' = fs2" by simp
    with write_file_file_at[OF Some] ne show ?thesis by simp
  qed
  with c show ?thesis by blast
qed

lemma revert_snapshot_from_head_and_staging:
  assumes "gitRevert fs R newCommitID now = Inr (True, fs')"
    and "well_formed fs"
    and "newCommitID \<noteq> parent_of_head fs"
  shows "(\<forall>rel. file_at fs (staging_area @ rel) \<noteq> None \<longrightarrow>
            file_at fs' (dataPath newCommitID @ rel) = file_at fs (staging_area @ rel))
       \<and> (\<forall>rel. file_at fs (staging_area @ rel) = None \<and> parent_of_head fs \<noteq> []
                \<and> file_at fs (dataPath (parent_of_head fs) @ rel) \<noteq> None \<longrightarrow>
            file_at fs' (dataPath newCommitID @ rel) = file_at fs (dataPath (parent_of_head fs) @ rel))
       \<and> (\<forall>rel. file_at fs (staging_area @ rel) = None
                \<and> (parent_of_head fs = [] \<or> file_at fs (dataPath (parent_of_head fs) @ rel) = None) \<longrightarrow>
            file_at fs' (dataPath newCommitID @ rel) = file_at fs (dataPath newCommitID @ rel))"
proof -
  from assms(1) obtain msg where a: "addOnTail fs msg newCommitID now = Inr fs'"
    by (auto simp: gitRevert_def revertCommit_def bindE_eq_Inr split: option.splits if_splits)
  from addOnTail_snapshot[OF a] obtain fsc where
    c: "createCommit fs newCommitID (parent_of_head fs) msg now = Inr fsc" and
    f: "\<And>rel. file_at fs' (dataPath newCommitID @ rel) = file_at fsc (dataPath newCommitID @ rel)"
    by blast
  from createCommit_snapshot[OF c assms(2,3)] show ?thesis by (simp only: f)
qed

text \<open>
  \<open>gitAdd()\<close> prunes: a file of the working tree with the bytes of the head's copy is not
  staged when \<open>gitAdd()\<close> returns, whatever was staged at its path before.
\<close>

lemma gitAdd_prunes_unchanged:
  assumes "gitAdd fs = Inr fs'"
    and "rel \<in> set (working_files fs)"
    and "committedData fs = Some p"
    and "file_at fs (p @ rel) = file_at fs rel"
  shows "file_at fs' (staging_area @ rel) = None"
proof -
  from assms(2) have w: "rel \<in> set (walk_root fs)" "\<not> isIgnored rel" "is_regular_file fs rel"
    by (simp_all add: working_files_def)
  from w(3) obtain c where c: "file_at fs rel = Some c"
    by (auto simp: is_regular_file_file_at)
  from w(2) have n1: "\<not> prefix staging_area rel"
    using isIgnored_git[of rel] by (auto simp: staging_area_def prefix_def)
  from assms(3) have n2: "\<not> prefix staging_area (p @ rel)"
    by (auto simp: committedData_def Let_def dataPath_def commitPath_def commitsRoot_def
          staging_area_def split: if_splits)
  from assms(1,3) have f: "foldE (add_entry (Some p)) (walk_root fs) fs = Inr fs'"
    by (simp add: gitAdd_def)
  from foldE_add_entry_prunes[OF f w(1) distinct_walk_root w(2) n1 n2 c] assms(4) c
  show ?thesis by simp
qed

text \<open>
  The run of the commands: the edited file is reported as modified, then as staged; the
  log has the two commits, the second naming the first as its parent; the revert commit
  holds the second version of the file, and the working tree is as it was.
\<close>

lemma scenario_result:
  "scenario =
     Inr (([], [[''a.txt'']], []),
          ([[''a.txt'']], [], []),
          Some (Inr [''Commit ID:    BBBBBBBB'', ''Commit Msg:   second'',
                     ''Date & Time:  2026/01/02 10:00'', ''============================'', [],
                     ''Commit ID:    AAAAAAAA'', ''Commit Msg:   first'',
                     ''Date & Time:  2026/01/01 10:00'', ''============================'', []]),
          [''1.BBBBBBBB'', ''2.AAAAAAAA'', ''3.second'', ''4.2026/01/02 10:00''],
          Some ''v2'', Some ''v2'')"
  by code_simp

section \<open>Claims\<close>

text \<open>
  C1.  The claim fails on the code: \<open>revertCommit\<close> takes only the message from
  the target and calls \<open>addOnTail\<close>, which inherits from the head and overlays the
  staging area.  In \<open>repo2\<close> (head \<open>BBBBBBBB\<close> with \<open>a.txt\<close> = v2, its parent
  \<open>AAAAAAAA\<close> with \<open>a.txt\<close> = v1, nothing staged), reverting to \<open>AAAAAAAA\<close> creates a
  commit whose \<open>a.txt\<close> is v2, the head's.  In \<open>repo1\<close> (head \<open>AAAAAAAA\<close>, \<open>a.txt\<close> = v2
  staged), reverting to the head creates a commit whose \<open>a.txt\<close> is the staged v2.
\<close>

theorem C1_revert_snapshot_is_head:
  "map_sum id (\<lambda>(ok, fs'). (ok, file_at fs' (dataPath ''CCCCCCCC'' @ [''a.txt'']),
          file_at fs' (dataPath ''AAAAAAAA'' @ [''a.txt''])))
     (gitRevert repo2 ''AAAAAAAA'' ''CCCCCCCC'' ''2026/01/03 10:00'')
   = Inr (True, Some ''v2'', Some ''v1'')
 \<and> map_sum id (\<lambda>(ok, fs'). (ok, file_at fs' (dataPath ''CCCCCCCC'' @ [''a.txt'']),
          file_at fs' (dataPath ''AAAAAAAA'' @ [''a.txt''])))
     (gitRevert repo1 ''HEAD'' ''CCCCCCCC'' ''2026/01/03 10:00'')
   = Inr (True, Some ''v2'', Some ''v1'')"
  by code_simp

text \<open>
  C2.  \<open>createCommit\<close> for child \<open>C\<close> with parent \<open>P\<close>, in a well-formed file system and
  with \<open>C\<close> other than \<open>P\<close>: when it returns, every regular file of the staging area is
  in the snapshot of \<open>C\<close> at the same relative path with the staged bytes, and every
  regular file of the snapshot of \<open>P\<close> whose relative path is no regular file of the
  staging area is in the snapshot of \<open>C\<close> with the bytes it has in \<open>P\<close>.
\<close>

theorem C2_createCommit_inherit_overlay:
  assumes "createCommit fs C P msg now = Inr fs'" and "well_formed fs" and "C \<noteq> P"
  shows "(\<forall>rel x. file_at fs (staging_area @ rel) = Some x \<longrightarrow>
            file_at fs' (dataPath C @ rel) = Some x)
       \<and> (\<forall>rel x. P \<noteq> [] \<and> file_at fs (dataPath P @ rel) = Some x
                   \<and> file_at fs (staging_area @ rel) = None \<longrightarrow>
            file_at fs' (dataPath C @ rel) = Some x)"
  using createCommit_snapshot[OF assms] by simp

theorem C2_createCommit_inherit_overlay_witness:
  "well_formed repo1 \<and> ''BBBBBBBB'' \<noteq> ''AAAAAAAA''
   \<and> (\<exists>fs'. createCommit repo1 ''BBBBBBBB'' ''AAAAAAAA'' ''second'' ''2026/01/02 10:00'' = Inr fs'
        \<and> file_at fs' (dataPath ''BBBBBBBB'' @ [''a.txt'']) = Some ''v2''
        \<and> file_at fs' (dataPath ''BBBBBBBB'' @ [''b.txt'']) = Some ''w1'')"
proof -
  have "\<not> isl (createCommit repo1 ''BBBBBBBB'' ''AAAAAAAA'' ''second'' ''2026/01/02 10:00'')"
    by code_simp
  then obtain fs' where
    1: "createCommit repo1 ''BBBBBBBB'' ''AAAAAAAA'' ''second'' ''2026/01/02 10:00'' = Inr fs'"
    by (cases "createCommit repo1 ''BBBBBBBB'' ''AAAAAAAA'' ''second'' ''2026/01/02 10:00''") auto
  have 2: "well_formed repo1" by code_simp
  have 3: "file_at repo1 (staging_area @ [''a.txt'']) = Some ''v2''" by code_simp
  have 4: "file_at repo1 (dataPath ''AAAAAAAA'' @ [''b.txt'']) = Some ''w1''" by code_simp
  have 5: "file_at repo1 (staging_area @ [''b.txt'']) = None" by code_simp
  from C2_createCommit_inherit_overlay[OF 1 2] 1 2 3 4 5 show ?thesis by auto
qed

text \<open>
  C3, as the code has it.  \<open>gitStatus\<close> in a well-formed file system whose staging area
  is not itself a regular file, and where no file of the working tree that has nothing
  at its path in the staging area has a directory at its path in the snapshot of the
  head (there \<open>filesAreSame\<close> calls \<open>fs::file_size\<close> on a directory, and of that run
  nothing is stated).  It returns three lists: staged holds exactly the regular files of
  the staging area; modified exactly the files of the working tree with nothing at their
  path in the staging area, something at their path in the snapshot of the head, and
  bytes other than the snapshot's; untracked exactly the files of the working tree with
  nothing at their path in the staging area nor in the snapshot of the head.  The three
  are pairwise disjoint, and a file of the working tree with nothing at its path in the
  staging area and the bytes of the snapshot is in none.  The working tree is what the
  walk reaches: the regular files that \<open>isIgnored\<close> does not ignore and that have no
  ignored ancestor; and something at a path is what \<open>fs::exists\<close> finds there, a file
  or a directory.
\<close>

theorem C3_gitStatus_partition:
  assumes "well_formed fs"
    and "\<not> is_regular_file fs staging_area"
    and "\<forall>rel\<in>set (working_files fs).
           \<not> exists_path fs (staging_area @ rel) \<longrightarrow> \<not> dir_below fs (committedData fs) rel"
  shows "\<exists>staged modified untracked.
      gitStatus fs = Inr (staged, modified, untracked)
    \<and> set staged = {rel. is_regular_file fs (staging_area @ rel)}
    \<and> set modified = {rel \<in> set (working_files fs).
          \<not> exists_path fs (staging_area @ rel) \<and> exists_below fs (committedData fs) rel
          \<and> file_below fs (committedData fs) rel \<noteq> file_at fs rel}
    \<and> set untracked = {rel \<in> set (working_files fs).
          \<not> exists_path fs (staging_area @ rel) \<and> \<not> exists_below fs (committedData fs) rel}
    \<and> set (working_files fs) = {rel. is_regular_file fs rel \<and> \<not> isIgnored rel \<and> \<not> pruned rel}
    \<and> set staged \<inter> set modified = {} \<and> set staged \<inter> set untracked = {}
    \<and> set modified \<inter> set untracked = {}
    \<and> (\<forall>rel\<in>set (working_files fs).
          \<not> exists_path fs (staging_area @ rel) \<and> file_below fs (committedData fs) rel = file_at fs rel
          \<longrightarrow> rel \<notin> set staged \<union> set modified \<union> set untracked)"
proof -
  from scan_staging_result[OF assms(2,1)] obtain staged where
    s: "scan_staging fs = Inr staged" "set staged = {rel. is_regular_file fs (staging_area @ rel)}"
    by blast
  define modified where "modified = filter (\<lambda>rel. \<not> isIgnored rel \<and> is_regular_file fs rel
      \<and> \<not> exists_path fs (staging_area @ rel) \<and> exists_below fs (committedData fs) rel
      \<and> file_below fs (committedData fs) rel \<noteq> file_at fs rel) (walk_root fs)"
  define untracked where "untracked = filter (\<lambda>rel. \<not> isIgnored rel \<and> is_regular_file fs rel
      \<and> \<not> exists_path fs (staging_area @ rel) \<and> \<not> exists_below fs (committedData fs) rel) (walk_root fs)"
  have "\<forall>rel\<in>set (walk_root fs). \<not> isIgnored rel \<and> is_regular_file fs rel
           \<and> \<not> exists_path fs (staging_area @ rel) \<longrightarrow> \<not> dir_below fs (committedData fs) rel"
    using assms(3) by (simp add: working_files_def)
  from foldE_status_entry[OF this, of "[]" "[]"]
  have f: "foldE (status_entry fs (committedData fs)) (walk_root fs) ([], []) = Inr (modified, untracked)"
    by (simp add: modified_def untracked_def)
  have g: "gitStatus fs = Inr (staged, modified, untracked)"
    by (simp add: gitStatus_def s(1) f)
  have m: "set modified = {rel \<in> set (working_files fs).
          \<not> exists_path fs (staging_area @ rel) \<and> exists_below fs (committedData fs) rel
          \<and> file_below fs (committedData fs) rel \<noteq> file_at fs rel}"
    by (auto simp: modified_def working_files_def)
  have u: "set untracked = {rel \<in> set (working_files fs).
          \<not> exists_path fs (staging_area @ rel) \<and> \<not> exists_below fs (committedData fs) rel}"
    by (auto simp: untracked_def working_files_def)
  have e: "\<And>rel. is_regular_file fs (staging_area @ rel) \<Longrightarrow> exists_path fs (staging_area @ rel)"
    by (simp add: is_regular_file_file_at file_at_exists)
  have w: "\<And>rel. rel \<in> set (working_files fs) \<Longrightarrow> file_at fs rel \<noteq> None"
    by (simp add: set_working_files is_regular_file_file_at)
  have x: "\<And>rel. file_below fs (committedData fs) rel \<noteq> None \<Longrightarrow> exists_below fs (committedData fs) rel"
    by (auto simp: file_below_def exists_below_def file_at_exists split: option.splits)
  have d1: "set staged \<inter> set modified = {}" using s(2) m e by auto
  have d2: "set staged \<inter> set untracked = {}" using s(2) u e by auto
  have d3: "set modified \<inter> set untracked = {}" using m u by auto
  have n: "\<forall>rel\<in>set (working_files fs).
          \<not> exists_path fs (staging_area @ rel) \<and> file_below fs (committedData fs) rel = file_at fs rel
          \<longrightarrow> rel \<notin> set staged \<union> set modified \<union> set untracked"
    using s(2) m u e w x by (metis (mono_tags, lifting) Un_iff mem_Collect_eq)
  from g s(2) m u d1 d2 d3 n set_working_files[of fs] show ?thesis by blast
qed

theorem C3_gitStatus_partition_witness:
  "well_formed repo6 \<and> \<not> is_regular_file repo6 staging_area
   \<and> list_all (\<lambda>rel. \<not> dir_below repo6 (committedData repo6) rel) (working_files repo6)
   \<and> gitStatus repo6 = Inr ([[''c.txt'']], [[''b.txt'']], [[''d.txt'']])
   \<and> working_files repo6 = [[''a.txt''], [''b.txt''], [''c.txt''], [''d.txt'']]
   \<and> {rel. is_regular_file repo6 (staging_area @ rel)} = {[''c.txt'']}"
proof -
  have 1: "well_formed repo6" by code_simp
  have 2: "\<not> is_regular_file repo6 staging_area" by code_simp
  have 3: "list_all (\<lambda>rel. \<not> dir_below repo6 (committedData repo6) rel) (working_files repo6)"
    by code_simp
  then have 4: "\<forall>rel\<in>set (working_files repo6).
           \<not> exists_path repo6 (staging_area @ rel) \<longrightarrow> \<not> dir_below repo6 (committedData repo6) rel"
    by (simp add: list_all_iff)
  have 5: "gitStatus repo6 = Inr ([[''c.txt'']], [[''b.txt'']], [[''d.txt'']])" by code_simp
  have 6: "working_files repo6 = [[''a.txt''], [''b.txt''], [''c.txt''], [''d.txt'']]" by code_simp
  from C3_gitStatus_partition[OF 1 2 4] 1 2 3 5 6 show ?thesis by auto
qed

text \<open>
  C3 as stated fails, in three ways.  In \<open>repo6\<close> the file \<open>.gitignore\<close> of the working tree
  is neither in the staging area nor in the snapshot of the head, and it is not
  untracked: \<open>isIgnored\<close> ignores every path whose string starts with \<open>.git\<close>.  In \<open>repo7\<close>
  the file \<open>d.txt\<close> of the working tree is no regular file of the staging area and
  there is no head, and it is in none of the three lists: a directory is at its path in
  the staging area.  In \<open>repo8\<close> the file \<open>docs\<close> of the working tree has nothing at its
  path in the staging area and a directory at its path in the snapshot of the head, and
  \<open>gitStatus\<close> returns no lists at all.
\<close>

theorem C3_gitStatus_partition_counterexample:
  "is_regular_file repo6 [''.gitignore'']
   \<and> \<not> exists_path repo6 (staging_area @ [''.gitignore''])
   \<and> \<not> exists_below repo6 (committedData repo6) [''.gitignore'']
   \<and> gitStatus repo6 = Inr ([[''c.txt'']], [[''b.txt'']], [[''d.txt'']])
   \<and> is_regular_file repo7 [''d.txt'']
   \<and> \<not> is_regular_file repo7 (staging_area @ [''d.txt''])
   \<and> \<not> exists_below repo7 (committedData repo7) [''d.txt'']
   \<and> gitStatus repo7 = Inr ([[''d.txt'', ''old.txt'']], [], [])
   \<and> is_regular_file repo8 [''docs'']
   \<and> \<not> exists_path repo8 (staging_area @ [''docs''])
   \<and> gitStatus repo8 = Inl FilesystemError"
  by code_simp

text \<open>
  C4.  \<open>gitCommit\<close> when no regular file is in the staging area (nor is the staging area
  itself one): it returns false and the file system, with the head and the commits, is
  the one it started from.
\<close>

theorem C4_gitCommit_empty_staging:
  assumes "\<forall>rel. \<not> is_regular_file fs (staging_area @ rel)"
  shows "gitCommit fs msg newCommitID now = Inr (False, fs)"
  by (simp add: gitCommit_def staging_nonempty_False[OF assms])

theorem C4_gitCommit_empty_staging_witness:
  "{rel. is_regular_file repo2 (staging_area @ rel)} = {}
   \<and> gitCommit repo2 ''third'' ''CCCCCCCC'' ''2026/01/03 10:00'' = Inr (False, repo2)"
proof -
  have 1: "\<forall>rel. \<not> is_regular_file repo2 (staging_area @ rel)"
    by (simp add: is_regular_file_def lookup_def repo2_def staging_area_def)
  from C4_gitCommit_empty_staging[OF 1] 1 show ?thesis by simp
qed

text \<open>
  C5.  \<open>gitCommit\<close> when it returns true, the path of HEAD not being a directory: no
  regular file is left in the staging area, HEAD holds the new identifier (and
  \<open>getHEAD\<close> reads it back when it is not empty and has no white space, as the eight
  characters of \<open>gen_random\<close> are), and the record of the new commit exists.
\<close>

theorem C5_gitCommit_success:
  assumes "gitCommit fs msg newCommitID now = Inr (True, fs')"
    and "\<not> is_directory fs HEAD_path"
  shows "(\<forall>rel. \<not> is_regular_file fs' (staging_area @ rel))
       \<and> file_at fs' HEAD_path = Some newCommitID
       \<and> (newCommitID \<noteq> [] \<and> list_all (\<lambda>x. \<not> isspace x) newCommitID \<longrightarrow>
            getHEAD fs' = newCommitID)
       \<and> is_regular_file fs' (commitInfoPath newCommitID)"
proof -
  from assms(1) obtain fs1 where
    n: "staging_nonempty fs = Inr True" and
    a: "addOnTail fs msg newCommitID now = Inr fs1" and
    c: "clearStagingArea fs1 = Inr fs'"
    by (auto simp: gitCommit_def bindE_eq_Inr split: if_splits)
  note r = addOnTail_result[OF a assms(2)]
  from n have "exists_path fs staging_area" by (rule staging_nonempty_True)
  then have "exists_path fs1 staging_area" by (rule r(3))
  note f = clearStagingArea_result[OF c this]
  have h: "file_at fs' HEAD_path = Some newCommitID" using f[of HEAD_path] r(1) by simp
  then have "lookup fs' HEAD_path = Some (File newCommitID)"
    by (auto simp: file_at_def split: option.splits node.splits)
  then have g: "newCommitID \<noteq> [] \<and> list_all (\<lambda>x. \<not> isspace x) newCommitID \<longrightarrow>
            getHEAD fs' = newCommitID"
    by (auto simp: getHEAD_def Let_def first_line_def list_all_iff isspace_def newline_def
          takeWhile_eq_all_conv[THEN iffD2] filter_id_conv[THEN iffD2])
  show ?thesis using f h g r(2) f[of "commitInfoPath newCommitID"]
    by (simp add: is_regular_file_file_at)
qed

theorem C5_gitCommit_success_witness:
  "gitCommit repo1 ''second'' ''BBBBBBBB'' ''2026/01/02 10:00'' = Inr (True, repo2)
   \<and> \<not> is_directory repo1 HEAD_path
   \<and> {rel. is_regular_file repo2 (staging_area @ rel)} = {}
   \<and> file_at repo2 HEAD_path = Some ''BBBBBBBB''
   \<and> getHEAD repo2 = ''BBBBBBBB''
   \<and> is_regular_file repo2 (commitInfoPath ''BBBBBBBB'')"
proof -
  have 1: "gitCommit repo1 ''second'' ''BBBBBBBB'' ''2026/01/02 10:00'' = Inr (True, repo2)"
    by code_simp
  have 2: "\<not> is_directory repo1 HEAD_path" by code_simp
  have 3: "list_all (\<lambda>x. \<not> isspace x) ''BBBBBBBB''" by code_simp
  from C5_gitCommit_success[OF 1 2] 1 2 3 show ?thesis by simp
qed

text \<open>
  C6.  The claim fails on the code: where the working file has the bytes of the head's
  copy, \<open>gitAdd(files, n)\<close> goes on to the next argument and leaves a stale staged copy in
  place, which \<open>gitAdd()\<close> removes.  In \<open>repo3\<close> the working \<open>a.txt\<close> and the head's are
  both v1 and v2 is staged: after \<open>add a.txt\<close> the file system is unchanged, v2 still
  staged; after \<open>add .\<close> nothing is staged at \<open>a.txt\<close>.
\<close>

theorem C6_add_named_keeps_stale_copy:
  "gitAdd_named repo3 [[''a.txt'']] = Inr ([], repo3)
   \<and> file_at repo3 [''a.txt''] = Some ''v1''
   \<and> file_at repo3 (dataPath (getHEAD repo3) @ [''a.txt'']) = Some ''v1''
   \<and> file_at repo3 (staging_area @ [''a.txt'']) = Some ''v2''
   \<and> map_sum id (\<lambda>fs'. file_at fs' (staging_area @ [''a.txt''])) (gitAdd repo3) = Inr None"
  by code_simp

text \<open>
  C7, as the code has it.  When the walk of \<open>printCommitList\<close> comes, after any number of
  commits whose records exist and are read without error (their lines are \<open>readable\<close>,
  see \<open>print_step_readable\<close>), to an identifier that is a plain name and has no record,
  the log returns normally with the entries of the commits before it: it stops silently
  after the last commit that resolves, and nothing tells the caller of the break.
\<close>

theorem C7_log_stops_at_dangling_parent:
  assumes "walk_commits n fs (trim (read_first_line fs HEAD_path)) [] = Some (lastID, out)"
    and "plain_name lastID"
    and "\<not> exists_path fs (commitInfoPath lastID)"
  shows "gitLog fs = Some (Inr out)"
  using print_loop_walk[OF assms(1,3)] by (simp add: gitLog_def printCommitList_def)

theorem C7_log_stops_at_dangling_parent_witness:
  "walk_commits 1 repo4 (trim (read_first_line repo4 HEAD_path)) []
     = Some (''AAAAAAAA'', [''Commit ID:    BBBBBBBB'', ''Commit Msg:   second'',
         ''Date & Time:  2026/01/02 10:00'', ''============================'', []])
   \<and> plain_name ''AAAAAAAA''
   \<and> \<not> exists_path repo4 (commitInfoPath ''AAAAAAAA'')
   \<and> gitLog repo4 = Some (Inr [''Commit ID:    BBBBBBBB'', ''Commit Msg:   second'',
         ''Date & Time:  2026/01/02 10:00'', ''============================'', []])"
proof -
  have 1: "walk_commits 1 repo4 (trim (read_first_line repo4 HEAD_path)) []
     = Some (''AAAAAAAA'', [''Commit ID:    BBBBBBBB'', ''Commit Msg:   second'',
         ''Date & Time:  2026/01/02 10:00'', ''============================'', []])"
    by code_simp
  have 2: "plain_name ''AAAAAAAA''" by code_simp
  have 3: "\<not> exists_path repo4 (commitInfoPath ''AAAAAAAA'')" by code_simp
  from C7_log_stops_at_dangling_parent[OF 1 2 3] 1 2 3 show ?thesis by simp
qed

text \<open>
  C7 as stated fails: in \<open>repo4\<close> the head \<open>BBBBBBBB\<close> names the parent \<open>AAAAAAAA\<close>, which
  has no record; the log returns normally with the entry of \<open>BBBBBBBB\<close>, and it is the
  very log of \<open>repo5\<close>, where \<open>BBBBBBBB\<close> is a root.
\<close>

theorem C7_log_signals_corruption_counterexample:
  "trim (read_first_line repo4 HEAD_path) = ''BBBBBBBB''
   \<and> print_step repo4 ''BBBBBBBB'' [] = Inr (''AAAAAAAA'', [''Commit ID:    BBBBBBBB'', ''Commit Msg:   second'',
         ''Date & Time:  2026/01/02 10:00'', ''============================'', []])
   \<and> \<not> exists_path repo4 (commitInfoPath ''AAAAAAAA'')
   \<and> gitLog repo4 = Some (Inr [''Commit ID:    BBBBBBBB'', ''Commit Msg:   second'',
         ''Date & Time:  2026/01/02 10:00'', ''============================'', []])
   \<and> print_step repo5 ''BBBBBBBB'' [] = Inr (''NULL'', [''Commit ID:    BBBBBBBB'', ''Commit Msg:   second'',
         ''Date & Time:  2026/01/02 10:00'', ''============================'', []])
   \<and> gitLog repo5 = gitLog repo4"
  by code_simp



text \<open>
  C9.  \<open>filesAreSame\<close>: when a path is missing it returns false, without error.  On two
  paths of which none is a directory (on a directory \<open>fs::file_size\<close> is
  implementation-defined) it returns, without error, true exactly when both are regular
  files with the same bytes.  When the two files differ in size it returns false and has
  compared no byte.
\<close>

theorem C9_filesAreSame:
  "(\<not> exists_path fs a \<or> \<not> exists_path fs b \<longrightarrow> filesAreSame fs a b = Inr False)
 \<and> (\<not> is_directory fs a \<and> \<not> is_directory fs b \<longrightarrow>
      filesAreSame fs a b = Inr (\<exists>c. lookup fs a = Some (File c) \<and> lookup fs b = Some (File c)))
 \<and> (\<forall>ca cb. lookup fs a = Some (File ca) \<and> lookup fs b = Some (File cb) \<and> length ca \<noteq> length cb \<longrightarrow>
      filesAreSame_counted fs a b = Inr (False, 0))"
  by (auto simp: filesAreSame_def filesAreSame_counted_def exists_path_def is_directory_def
        file_size_def std_equal_same_length split: option.splits node.splits)

theorem C9_filesAreSame_witness:
  "filesAreSame repo6 [''a.txt''] (dataPath ''AAAAAAAA'' @ [''a.txt'']) = Inr True
 \<and> filesAreSame repo6 [''b.txt''] (dataPath ''AAAAAAAA'' @ [''b.txt'']) = Inr False
 \<and> filesAreSame repo6 [''a.txt''] (dataPath ''AAAAAAAA'' @ [''c.txt'']) = Inr False
 \<and> \<not> exists_path repo6 (dataPath ''AAAAAAAA'' @ [''c.txt''])
 \<and> filesAreSame_counted repo6 [''c.txt''] [''.gitignore''] = Inr (False, 0)
 \<and> lookup repo6 [''c.txt''] = Some (File ''x1'') \<and> lookup repo6 [''.gitignore''] = Some (File ''*.o'')"
proof -
  have 1: "\<not> exists_path repo6 (dataPath ''AAAAAAAA'' @ [''c.txt''])" by code_simp
  have 2: "lookup repo6 [''c.txt''] = Some (File ''x1'')" by code_simp
  have 3: "lookup repo6 [''.gitignore''] = Some (File ''*.o'')" by code_simp
  have a: "lookup repo6 [''a.txt''] = Some (File ''v1'')" by code_simp
  have a': "lookup repo6 (dataPath ''AAAAAAAA'' @ [''a.txt'']) = Some (File ''v1'')" by code_simp
  have b: "lookup repo6 [''b.txt''] = Some (File ''w2'')" by code_simp
  have b': "lookup repo6 (dataPath ''AAAAAAAA'' @ [''b.txt'']) = Some (File ''w1'')" by code_simp
  have 4: "filesAreSame repo6 [''a.txt''] (dataPath ''AAAAAAAA'' @ [''a.txt'']) = Inr True"
    using C9_filesAreSame[of repo6 "[''a.txt'']" "dataPath ''AAAAAAAA'' @ [''a.txt'']"] a a'
    by (simp add: is_directory_def)
  have 5: "filesAreSame repo6 [''b.txt''] (dataPath ''AAAAAAAA'' @ [''b.txt'']) = Inr False"
    using C9_filesAreSame[of repo6 "[''b.txt'']" "dataPath ''AAAAAAAA'' @ [''b.txt'']"] b b'
    by (simp add: is_directory_def)
  have 6: "filesAreSame repo6 [''a.txt''] (dataPath ''AAAAAAAA'' @ [''c.txt'']) = Inr False"
    using C9_filesAreSame[of repo6 "[''a.txt'']" "dataPath ''AAAAAAAA'' @ [''c.txt'']"] 1 by simp
  have 7: "filesAreSame_counted repo6 [''c.txt''] [''.gitignore''] = Inr (False, 0)"
    using C9_filesAreSame[of repo6 "[''c.txt'']" "[''.gitignore'']"] 2 3 by simp
  show ?thesis by (intro conjI 1 2 3 4 5 6 7)
qed



end
